theory Spec2Isabelle
  imports Main "HOL-Library.Word"
begin

unbundle bit_operations_syntax

section \<open>Data model\<close>

text \<open>
  The issue-command state machine of the NBD client library
  (\<^verbatim>\<open>generator/states-issue-command.c\<close>) works on one connection handle \<^verbatim>\<open>h\<close>.
  The handle owns two singly linked queues of commands, one reusable request header
  and a write cursor \<^verbatim>\<open>(wbuf, wlen)\<close>.

  Bytes are \<open>8 word\<close>. Caller buffers live in a read-only store that maps an address to
  the bytes found there; \<^verbatim>\<open>cmd->data\<close> is such an address.
\<close>

type_synonym byte = "8 word"
type_synonym addr = nat
type_synonym memory = "addr \<Rightarrow> byte list"

subsection \<open>Byte order\<close>

text \<open>
  \<^verbatim>\<open>htobe16/32/64\<close> turn a host integer into an integer whose object representation is
  the big-endian encoding of the argument. The model keeps that object representation,
  the bytes in memory order, which is the same on every host. \<^verbatim>\<open>be64toh\<close> reads such a
  field back.
\<close>

definition htobe16 :: "16 word \<Rightarrow> byte list" where
  "htobe16 x = [ucast (drop_bit 8 x), ucast x]"

definition htobe32 :: "32 word \<Rightarrow> byte list" where
  "htobe32 x = [ucast (drop_bit 24 x), ucast (drop_bit 16 x), ucast (drop_bit 8 x), ucast x]"

definition htobe64 :: "64 word \<Rightarrow> byte list" where
  "htobe64 x = [ucast (drop_bit 56 x), ucast (drop_bit 48 x), ucast (drop_bit 40 x),
     ucast (drop_bit 32 x), ucast (drop_bit 24 x), ucast (drop_bit 16 x),
     ucast (drop_bit 8 x), ucast x]"

definition be64toh :: "byte list \<Rightarrow> 64 word" where
  "be64toh bs = foldl (\<lambda>acc b. push_bit 8 acc OR ucast b) 0 bs"

definition be32toh :: "byte list \<Rightarrow> 32 word" where
  "be32toh bs = foldl (\<lambda>acc b. push_bit 8 acc OR ucast b) 0 bs"

text \<open>
  What big-endian means, said without the encoders: the number a byte string denotes
  when its first byte is the most significant.
\<close>

definition be_value :: "byte list \<Rightarrow> nat" where
  "be_value bs = foldl (\<lambda>acc b. acc * 256 + unat b) 0 bs"

text \<open>The big-endian encoding of the low \<open>n\<close> bytes of a word, used in proofs only.\<close>

primrec be_bytes :: "nat \<Rightarrow> 'a::len word \<Rightarrow> byte list" where
  "be_bytes 0 x = []"
| "be_bytes (Suc n) x = be_bytes n (drop_bit 8 x) @ [ucast x]"

subsection \<open>Commands, the request header, the handle\<close>

text \<open>
  Modelled from the spec: the declaration of \<^verbatim>\<open>struct command_in_flight\<close> is not in the
  state machine file. The fields are those of section 3 (handle, type, flags, offset,
  count, data, next), with the widths the code relies on: \<^verbatim>\<open>flags\<close> and \<^verbatim>\<open>type\<close> go
  through \<^verbatim>\<open>htobe16\<close>, \<^verbatim>\<open>handle\<close> and \<^verbatim>\<open>offset\<close> through \<^verbatim>\<open>htobe64\<close>, and \<^verbatim>\<open>count\<close> is
  wider than the \<^verbatim>\<open>uint32_t\<close> it is cast to and is assigned to \<^verbatim>\<open>wlen\<close> as it is
  (64 bits). The \<^verbatim>\<open>next\<close> pointer is the tail of the list the command is a member of,
  so \<^verbatim>\<open>cmd->next\<close> is non-null when that tail is not empty.
\<close>

record command_in_flight =
  flags :: "16 word"
  type :: "16 word"
  handle :: "64 word"
  offset :: "64 word"
  count :: "64 word"
  data :: addr

text \<open>
  Modelled from the spec: \<^verbatim>\<open>struct nbd_request\<close> is declared outside the state machine
  file. Section 3: a fixed 28-byte layout of magic, flags, type, handle, offset and
  count, with no padding. Each field holds the bytes it has in memory.
\<close>

record nbd_request =
  magic :: "byte list"
  flags :: "byte list"
  type :: "byte list"
  handle :: "byte list"
  offset :: "byte list"
  count :: "byte list"

definition request_bytes :: "nbd_request \<Rightarrow> byte list" where
  "request_bytes r =
     nbd_request.magic r @ nbd_request.flags r @ nbd_request.type r @
     nbd_request.handle r @ nbd_request.offset r @ nbd_request.count r"

text \<open>
  Modelled from the spec: the constants are declared outside the state machine file.
  The magic and the header size are those of the wire format (sections 3 and 6);
  \<^verbatim>\<open>READ\<close> is 0 and \<^verbatim>\<open>WRITE\<close> is 1 as in scenarios S1 and S2 (section 8);
  \<^verbatim>\<open>WRITE_ZEROES\<close>, a type of its own in section 3, has its number in the NBD protocol;
  \<^verbatim>\<open>MSG_MORE\<close> is the "more data follows" flag of the socket send, with the value of
  the Linux headers.
\<close>

definition NBD_REQUEST_MAGIC :: "32 word" where
  "NBD_REQUEST_MAGIC = 0x25609513"

definition NBD_CMD_READ :: "16 word" where
  "NBD_CMD_READ = 0"

definition NBD_CMD_WRITE :: "16 word" where
  "NBD_CMD_WRITE = 1"

definition NBD_CMD_WRITE_ZEROES :: "16 word" where
  "NBD_CMD_WRITE_ZEROES = 6"

definition MSG_MORE :: "32 word" where
  "MSG_MORE = 0x8000"

definition sizeof_request :: "64 word" where
  "sizeof_request = 28"

text \<open>
  A pointer held in \<^verbatim>\<open>wbuf\<close>: null, into the handle's own request header at a byte
  offset, or into a caller buffer at a byte offset.
\<close>

datatype pointer = Null_ptr | Request_ptr nat | Data_ptr addr nat

fun ptr_add :: "pointer \<Rightarrow> nat \<Rightarrow> pointer" where
  "ptr_add Null_ptr n = Null_ptr"
| "ptr_add (Request_ptr k) n = Request_ptr (k + n)"
| "ptr_add (Data_ptr a k) n = Data_ptr a (k + n)"

text \<open>
  Modelled from the spec: \<^verbatim>\<open>struct nbd_handle\<close> is declared outside the state machine
  file. These are the fields the issue path uses, as in section 3 (connection state);
  \<^verbatim>\<open>wlen\<close> is a \<^verbatim>\<open>size_t\<close>, \<^verbatim>\<open>wflags\<close> an \<^verbatim>\<open>int\<close>. \<open>sock_sent\<close> stands for the socket:
  the bytes it has accepted so far, in order.
\<close>

record nbd_handle =
  cmds_to_issue :: "command_in_flight list"
  cmds_in_flight :: "command_in_flight list"
  request :: nbd_request
  wbuf :: pointer
  wlen :: "64 word"
  wflags :: "32 word"
  in_write_payload :: bool
  sock_sent :: "byte list"

datatype state =
    STATE_READY
  | STATE_DEAD
  | STATE_REPLY_START
  | STATE_ISSUE_COMMAND_START
  | STATE_ISSUE_COMMAND_SEND_REQUEST
  | STATE_ISSUE_COMMAND_PAUSE_SEND_REQUEST
  | STATE_ISSUE_COMMAND_PREPARE_WRITE_PAYLOAD
  | STATE_ISSUE_COMMAND_SEND_WRITE_PAYLOAD
  | STATE_ISSUE_COMMAND_PAUSE_WRITE_PAYLOAD
  | STATE_ISSUE_COMMAND_FINISH

text \<open>
  A failed \<^verbatim>\<open>assert\<close> aborts the process: it is the one error of the model. A handler
  that gets past its assertions returns its \<^verbatim>\<open>int\<close> result, the state it named with
  \<^verbatim>\<open>SET_NEXT_STATE\<close> (\<open>None\<close> when it returned without naming one) and the handle.
\<close>

datatype error = Assertion_failed

type_synonym handler_result = "error + (int \<times> state option \<times> nbd_handle)"

section \<open>The send primitive\<close>

text \<open>
  What the socket does on one call of its non-blocking send: a fatal error, or room for
  some number of bytes (no room at all is the benign "would block").
\<close>

datatype sock_result = Sock_error | Sock_room nat

text \<open>The bytes a send of \<open>n\<close> bytes at the cursor reads.\<close>

fun read_bytes :: "memory \<Rightarrow> nbd_handle \<Rightarrow> pointer \<Rightarrow> nat \<Rightarrow> byte list" where
  "read_bytes mem h Null_ptr n = []"
| "read_bytes mem h (Request_ptr k) n = take n (drop k (request_bytes (request h)))"
| "read_bytes mem h (Data_ptr a k) n = take n (drop k (mem a))"

text \<open>
  Modelled from the spec: \<^verbatim>\<open>send_from_wbuf\<close> is called by the state machine and is not
  in its file. Section 4.2: non-blocking send from \<^verbatim>\<open>(wbuf, wlen)\<close> with \<^verbatim>\<open>wflags\<close>; on
  success it advances \<^verbatim>\<open>wbuf\<close> by n and decrements \<^verbatim>\<open>wlen\<close> by n and returns 0 if
  \<^verbatim>\<open>wlen\<close> reached 0, 1 otherwise; on would-block it returns 1 without touching the
  cursor; on a fatal error it returns -1. Section 3: \<^verbatim>\<open>wflags\<close> is reset after each
  drain, and \<^verbatim>\<open>wlen == 0\<close> iff no write is partial, so with nothing left to send the
  drain is complete and the result is 0.
\<close>

definition send_from_wbuf :: "memory \<Rightarrow> sock_result \<Rightarrow> nbd_handle \<Rightarrow> int \<times> nbd_handle" where
  "send_from_wbuf mem sr h =
     (if wlen h = 0 then (0, h\<lparr>wflags := 0\<rparr>)
      else case sr of
        Sock_error \<Rightarrow> (- 1, h)
      | Sock_room room \<Rightarrow>
          if room = 0 then (1, h)
          else
            let n = min room (unat (wlen h));
                h' = h\<lparr>sock_sent := sock_sent h @ read_bytes mem h (wbuf h) n,
                       wbuf := ptr_add (wbuf h) n,
                       wlen := wlen h - of_nat n\<rparr>
            in if wlen h' = 0 then (0, h'\<lparr>wflags := 0\<rparr>) else (1, h'))"

section \<open>The state handlers\<close>

definition ISSUE_COMMAND_START :: "nbd_handle \<Rightarrow> handler_result" where
  "ISSUE_COMMAND_START h =
     (case cmds_to_issue h of
        [] \<Rightarrow> Inl Assertion_failed
      | cmd # nxt \<Rightarrow>
          if wlen h \<noteq> 0 then
            (if in_write_payload h
             then Inr (0, Some STATE_ISSUE_COMMAND_SEND_WRITE_PAYLOAD, h)
             else Inr (0, Some STATE_ISSUE_COMMAND_SEND_REQUEST, h))
          else
            Inr (0, Some STATE_ISSUE_COMMAND_SEND_REQUEST,
              h\<lparr>request :=
                   \<lparr>magic = htobe32 NBD_REQUEST_MAGIC,
                    flags = htobe16 (command_in_flight.flags cmd),
                    type = htobe16 (command_in_flight.type cmd),
                    handle = htobe64 (command_in_flight.handle cmd),
                    offset = htobe64 (command_in_flight.offset cmd),
                    count = htobe32 (ucast (command_in_flight.count cmd))\<rparr>,
                 wbuf := Request_ptr 0,
                 wlen := sizeof_request,
                 wflags :=
                   (if command_in_flight.type cmd = NBD_CMD_WRITE \<or> nxt \<noteq> []
                    then MSG_MORE else wflags h)\<rparr>))"

definition ISSUE_COMMAND_SEND_REQUEST ::
    "memory \<Rightarrow> sock_result \<Rightarrow> nbd_handle \<Rightarrow> handler_result" where
  "ISSUE_COMMAND_SEND_REQUEST mem sr h =
     (case send_from_wbuf mem sr h of (r, h') \<Rightarrow>
        if r = - 1 then Inr (- 1, Some STATE_DEAD, h')
        else if r = 0 then Inr (0, Some STATE_ISSUE_COMMAND_PREPARE_WRITE_PAYLOAD, h')
        else Inr (0, None, h'))"

definition ISSUE_COMMAND_PAUSE_SEND_REQUEST :: "nbd_handle \<Rightarrow> handler_result" where
  "ISSUE_COMMAND_PAUSE_SEND_REQUEST h =
     (if wlen h = 0 then Inl Assertion_failed
      else if cmds_to_issue h = [] then Inl Assertion_failed
      else Inr (0, Some STATE_REPLY_START, h\<lparr>in_write_payload := False\<rparr>))"

definition ISSUE_COMMAND_PREPARE_WRITE_PAYLOAD :: "nbd_handle \<Rightarrow> handler_result" where
  "ISSUE_COMMAND_PREPARE_WRITE_PAYLOAD h =
     (case cmds_to_issue h of
        [] \<Rightarrow> Inl Assertion_failed
      | cmd # nxt \<Rightarrow>
          if command_in_flight.handle cmd \<noteq> be64toh (nbd_request.handle (request h))
          then Inl Assertion_failed
          else if command_in_flight.type cmd = NBD_CMD_WRITE then
            Inr (0, Some STATE_ISSUE_COMMAND_SEND_WRITE_PAYLOAD,
              h\<lparr>wbuf := Data_ptr (data cmd) 0,
                 wlen := command_in_flight.count cmd,
                 wflags :=
                   (if nxt \<noteq> [] \<and> command_in_flight.count cmd < 64 * 1024
                    then MSG_MORE else wflags h)\<rparr>)
          else Inr (0, Some STATE_ISSUE_COMMAND_FINISH, h))"

definition ISSUE_COMMAND_SEND_WRITE_PAYLOAD ::
    "memory \<Rightarrow> sock_result \<Rightarrow> nbd_handle \<Rightarrow> handler_result" where
  "ISSUE_COMMAND_SEND_WRITE_PAYLOAD mem sr h =
     (case send_from_wbuf mem sr h of (r, h') \<Rightarrow>
        if r = - 1 then Inr (- 1, Some STATE_DEAD, h')
        else if r = 0 then Inr (0, Some STATE_ISSUE_COMMAND_FINISH, h')
        else Inr (0, None, h'))"

definition ISSUE_COMMAND_PAUSE_WRITE_PAYLOAD :: "nbd_handle \<Rightarrow> handler_result" where
  "ISSUE_COMMAND_PAUSE_WRITE_PAYLOAD h =
     (if wlen h = 0 then Inl Assertion_failed
      else if cmds_to_issue h = [] then Inl Assertion_failed
      else Inr (0, Some STATE_REPLY_START, h\<lparr>in_write_payload := True\<rparr>))"

definition ISSUE_COMMAND_FINISH :: "nbd_handle \<Rightarrow> handler_result" where
  "ISSUE_COMMAND_FINISH h =
     (if wlen h \<noteq> 0 then Inl Assertion_failed
      else case cmds_to_issue h of
        [] \<Rightarrow> Inl Assertion_failed
      | cmd # nxt \<Rightarrow>
          if command_in_flight.handle cmd \<noteq> be64toh (nbd_request.handle (request h))
          then Inl Assertion_failed
          else Inr (0, Some STATE_READY,
                 h\<lparr>cmds_to_issue := nxt, cmds_in_flight := cmd # cmds_in_flight h\<rparr>))"

section \<open>Running the machine\<close>

text \<open>
  Modelled from the spec: the driver that calls the handlers, the external events and
  the reply path are not in the state machine file. A handler that names a next state
  is followed by that state's handler; one that returns without naming a state leaves
  the machine resting (\<open>blocked\<close>) in its state. Only the two send handlers do so, after
  the send primitive returned 1. A resting send state is left when the socket is
  writable again (the handler is entered again) or when the machine yields to the reply
  path through the matching \<^verbatim>\<open>PAUSE\<close> state (section 4.1). The reply path works on the
  in-flight commands only and leaves the header, the write cursor and the to-issue
  queue alone (section 4.1, interleaving invariant); when it is done the machine is
  \<^verbatim>\<open>READY\<close>, and from there \<^verbatim>\<open>START\<close> is entered whenever a command waits. Enqueue appends
  to the tail of the to-issue queue (section 4.4) and is refused on a dead handle
  (section 7).
\<close>

record config =
  state :: state
  blocked :: bool
  conn :: nbd_handle

datatype event =
    Run sock_result
  | Notify_write
  | Notify_read
  | Reply_done "command_in_flight list"
  | Enqueue command_in_flight

definition after_handler :: "config \<Rightarrow> handler_result \<Rightarrow> error + config" where
  "after_handler c res =
     (case res of
        Inl e \<Rightarrow> Inl e
      | Inr (r, None, h') \<Rightarrow> Inr \<lparr>state = state c, blocked = True, conn = h'\<rparr>
      | Inr (r, Some s, h') \<Rightarrow> Inr \<lparr>state = s, blocked = False, conn = h'\<rparr>)"

fun enter_state :: "memory \<Rightarrow> sock_result \<Rightarrow> state \<Rightarrow> config \<Rightarrow> error + config" where
  "enter_state mem sr STATE_ISSUE_COMMAND_START c =
     after_handler c (ISSUE_COMMAND_START (conn c))"
| "enter_state mem sr STATE_ISSUE_COMMAND_SEND_REQUEST c =
     after_handler c (ISSUE_COMMAND_SEND_REQUEST mem sr (conn c))"
| "enter_state mem sr STATE_ISSUE_COMMAND_PAUSE_SEND_REQUEST c =
     after_handler c (ISSUE_COMMAND_PAUSE_SEND_REQUEST (conn c))"
| "enter_state mem sr STATE_ISSUE_COMMAND_PREPARE_WRITE_PAYLOAD c =
     after_handler c (ISSUE_COMMAND_PREPARE_WRITE_PAYLOAD (conn c))"
| "enter_state mem sr STATE_ISSUE_COMMAND_SEND_WRITE_PAYLOAD c =
     after_handler c (ISSUE_COMMAND_SEND_WRITE_PAYLOAD mem sr (conn c))"
| "enter_state mem sr STATE_ISSUE_COMMAND_PAUSE_WRITE_PAYLOAD c =
     after_handler c (ISSUE_COMMAND_PAUSE_WRITE_PAYLOAD (conn c))"
| "enter_state mem sr STATE_ISSUE_COMMAND_FINISH c =
     after_handler c (ISSUE_COMMAND_FINISH (conn c))"
| "enter_state mem sr STATE_READY c =
     (if cmds_to_issue (conn c) \<noteq> []
      then Inr (c\<lparr>state := STATE_ISSUE_COMMAND_START, blocked := False\<rparr>)
      else Inr c)"
| "enter_state mem sr STATE_REPLY_START c = Inr c"
| "enter_state mem sr STATE_DEAD c = Inr c"

fun step :: "memory \<Rightarrow> event \<Rightarrow> config \<Rightarrow> error + config" where
  "step mem (Run sr) c = (if blocked c then Inr c else enter_state mem sr (state c) c)"
| "step mem Notify_write c =
     (if blocked c \<and> (state c = STATE_ISSUE_COMMAND_SEND_REQUEST \<or>
                        state c = STATE_ISSUE_COMMAND_SEND_WRITE_PAYLOAD)
      then Inr (c\<lparr>blocked := False\<rparr>) else Inr c)"
| "step mem Notify_read c =
     (if blocked c \<and> state c = STATE_ISSUE_COMMAND_SEND_REQUEST
      then Inr (c\<lparr>state := STATE_ISSUE_COMMAND_PAUSE_SEND_REQUEST, blocked := False\<rparr>)
      else if blocked c \<and> state c = STATE_ISSUE_COMMAND_SEND_WRITE_PAYLOAD
      then Inr (c\<lparr>state := STATE_ISSUE_COMMAND_PAUSE_WRITE_PAYLOAD, blocked := False\<rparr>)
      else Inr c)"
| "step mem (Reply_done fl) c =
     (if state c = STATE_REPLY_START
      then Inr (c\<lparr>state := STATE_READY, blocked := False,
                  conn := (conn c)\<lparr>cmds_in_flight := fl\<rparr>\<rparr>)
      else Inr c)"
| "step mem (Enqueue cmd) c =
     (if state c = STATE_DEAD then Inr c
      else Inr (c\<lparr>conn := (conn c)\<lparr>cmds_to_issue := cmds_to_issue (conn c) @ [cmd]\<rparr>\<rparr>))"

fun run :: "memory \<Rightarrow> event list \<Rightarrow> config \<Rightarrow> error + config" where
  "run mem [] c = Inr c"
| "run mem (e # es) c =
     (case step mem e c of Inl x \<Rightarrow> Inl x | Inr c' \<Rightarrow> run mem es c')"

fun enqueued :: "event list \<Rightarrow> command_in_flight list" where
  "enqueued [] = []"
| "enqueued (Enqueue cmd # es) = cmd # enqueued es"
| "enqueued (e # es) = enqueued es"

section \<open>The wire format\<close>

text \<open>
  The request as the protocol lays it out: 4 bytes of magic, 2 of flags, 2 of type,
  8 of handle, 8 of offset, 4 of count, each big-endian; for a write the payload
  follows.
\<close>

definition wire_header :: "command_in_flight \<Rightarrow> byte list" where
  "wire_header cmd =
     htobe32 NBD_REQUEST_MAGIC @ htobe16 (command_in_flight.flags cmd) @
     htobe16 (command_in_flight.type cmd) @ htobe64 (command_in_flight.handle cmd) @
     htobe64 (command_in_flight.offset cmd) @
     htobe32 (ucast (command_in_flight.count cmd))"

definition payload :: "memory \<Rightarrow> command_in_flight \<Rightarrow> byte list" where
  "payload mem cmd =
     (if command_in_flight.type cmd = NBD_CMD_WRITE
      then take (unat (command_in_flight.count cmd)) (mem (data cmd)) else [])"

definition frame :: "memory \<Rightarrow> command_in_flight \<Rightarrow> byte list" where
  "frame mem cmd = wire_header cmd @ payload mem cmd"

definition frames :: "memory \<Rightarrow> command_in_flight list \<Rightarrow> byte list" where
  "frames mem cmds = concat (map (frame mem) cmds)"

text \<open>A write command's buffer holds at least \<^verbatim>\<open>count\<close> bytes (data model, section 3).\<close>

definition wf_cmd :: "memory \<Rightarrow> command_in_flight \<Rightarrow> bool" where
  "wf_cmd mem cmd =
     (command_in_flight.type cmd = NBD_CMD_WRITE \<longrightarrow>
        unat (command_in_flight.count cmd) \<le> length (mem (data cmd)))"

section \<open>Invariant of the machine\<close>

text \<open>The header \<^verbatim>\<open>START\<close> writes for a command.\<close>

definition hdr_of :: "command_in_flight \<Rightarrow> nbd_request" where
  "hdr_of cmd =
     \<lparr>magic = htobe32 NBD_REQUEST_MAGIC,
      flags = htobe16 (command_in_flight.flags cmd),
      type = htobe16 (command_in_flight.type cmd),
      handle = htobe64 (command_in_flight.handle cmd),
      offset = htobe64 (command_in_flight.offset cmd),
      count = htobe32 (ucast (command_in_flight.count cmd))\<rparr>"

text \<open>
  Where a write can stand: in the header of the head command (\<open>hdr_phase\<close>), between
  header and payload (\<open>hdr_sent\<close>), or in the payload of the head command
  (\<open>pay_phase\<close>). In each the header holds the head command.
\<close>

definition hdr_phase :: "nbd_handle \<Rightarrow> bool" where
  "hdr_phase h =
     (case cmds_to_issue h of
        [] \<Rightarrow> False
      | cmd # nxt \<Rightarrow>
          request h = hdr_of cmd \<and>
          (case wbuf h of Request_ptr k \<Rightarrow> k + unat (wlen h) = 28 | _ \<Rightarrow> False))"

definition hdr_sent :: "nbd_handle \<Rightarrow> bool" where
  "hdr_sent h =
     (case cmds_to_issue h of
        [] \<Rightarrow> False
      | cmd # nxt \<Rightarrow> request h = hdr_of cmd \<and> wlen h = 0)"

definition pay_phase :: "nbd_handle \<Rightarrow> bool" where
  "pay_phase h =
     (case cmds_to_issue h of
        [] \<Rightarrow> False
      | cmd # nxt \<Rightarrow>
          request h = hdr_of cmd \<and> command_in_flight.type cmd = NBD_CMD_WRITE \<and>
          (case wbuf h of
             Data_ptr a k \<Rightarrow>
               a = data cmd \<and> k + unat (wlen h) = unat (command_in_flight.count cmd)
           | _ \<Rightarrow> False))"

definition resting_ok :: "nbd_handle \<Rightarrow> bool" where
  "resting_ok h =
     (wlen h = 0 \<or> (if in_write_payload h then pay_phase h else hdr_phase h))"

fun state_inv :: "state \<Rightarrow> bool \<Rightarrow> nbd_handle \<Rightarrow> bool" where
  "state_inv STATE_READY b h = resting_ok h"
| "state_inv STATE_DEAD b h = True"
| "state_inv STATE_REPLY_START b h = resting_ok h"
| "state_inv STATE_ISSUE_COMMAND_START b h = (cmds_to_issue h \<noteq> [] \<and> resting_ok h)"
| "state_inv STATE_ISSUE_COMMAND_SEND_REQUEST b h = (hdr_phase h \<and> (b \<longrightarrow> wlen h \<noteq> 0))"
| "state_inv STATE_ISSUE_COMMAND_PAUSE_SEND_REQUEST b h = (hdr_phase h \<and> wlen h \<noteq> 0)"
| "state_inv STATE_ISSUE_COMMAND_PREPARE_WRITE_PAYLOAD b h = hdr_sent h"
| "state_inv STATE_ISSUE_COMMAND_SEND_WRITE_PAYLOAD b h = (pay_phase h \<and> (b \<longrightarrow> wlen h \<noteq> 0))"
| "state_inv STATE_ISSUE_COMMAND_PAUSE_WRITE_PAYLOAD b h = (pay_phase h \<and> wlen h \<noteq> 0)"
| "state_inv STATE_ISSUE_COMMAND_FINISH b h = hdr_sent h"

definition machine_inv :: "config \<Rightarrow> bool" where
  "machine_inv c = state_inv (state c) (blocked c) (conn c)"

text \<open>The bytes the machine still owes the socket for the commands in its queue.\<close>

definition cursor :: "memory \<Rightarrow> nbd_handle \<Rightarrow> byte list" where
  "cursor mem h = read_bytes mem h (wbuf h) (unat (wlen h))"

definition behind_header :: "memory \<Rightarrow> nbd_handle \<Rightarrow> byte list" where
  "behind_header mem h =
     (case cmds_to_issue h of [] \<Rightarrow> [] | cmd # nxt \<Rightarrow> payload mem cmd @ frames mem nxt)"

definition behind_command :: "memory \<Rightarrow> nbd_handle \<Rightarrow> byte list" where
  "behind_command mem h = frames mem (tl (cmds_to_issue h))"

definition resting_pending :: "memory \<Rightarrow> nbd_handle \<Rightarrow> byte list" where
  "resting_pending mem h =
     (if wlen h = 0 then frames mem (cmds_to_issue h)
      else if in_write_payload h then cursor mem h @ behind_command mem h
      else cursor mem h @ behind_header mem h)"

fun state_pending :: "memory \<Rightarrow> state \<Rightarrow> nbd_handle \<Rightarrow> byte list" where
  "state_pending mem STATE_READY h = resting_pending mem h"
| "state_pending mem STATE_DEAD h = []"
| "state_pending mem STATE_REPLY_START h = resting_pending mem h"
| "state_pending mem STATE_ISSUE_COMMAND_START h = resting_pending mem h"
| "state_pending mem STATE_ISSUE_COMMAND_SEND_REQUEST h = cursor mem h @ behind_header mem h"
| "state_pending mem STATE_ISSUE_COMMAND_PAUSE_SEND_REQUEST h =
     cursor mem h @ behind_header mem h"
| "state_pending mem STATE_ISSUE_COMMAND_PREPARE_WRITE_PAYLOAD h = behind_header mem h"
| "state_pending mem STATE_ISSUE_COMMAND_SEND_WRITE_PAYLOAD h =
     cursor mem h @ behind_command mem h"
| "state_pending mem STATE_ISSUE_COMMAND_PAUSE_WRITE_PAYLOAD h =
     cursor mem h @ behind_command mem h"
| "state_pending mem STATE_ISSUE_COMMAND_FINISH h = behind_command mem h"

definition pending :: "memory \<Rightarrow> config \<Rightarrow> byte list" where
  "pending mem c = state_pending mem (state c) (conn c)"

text \<open>
  One step keeps the invariant and the stream: what was sent followed by what is owed
  does not change, except that an enqueued command adds its frame at the end. A dead
  machine has sent nothing more.
\<close>

definition advances :: "memory \<Rightarrow> byte list \<Rightarrow> config \<Rightarrow> config \<Rightarrow> bool" where
  "advances mem new c c' =
     (machine_inv c' \<and>
      (if state c' = STATE_DEAD then sock_sent (conn c') = sock_sent (conn c)
       else sock_sent (conn c') @ pending mem c' =
            sock_sent (conn c) @ pending mem c @ new))"

text \<open>A first entry into \<^verbatim>\<open>START\<close>: a command waits and no write is partial.\<close>

definition fresh_start :: "config \<Rightarrow> bool" where
  "fresh_start c =
     (state c = STATE_ISSUE_COMMAND_START \<and> \<not> blocked c \<and>
      cmds_to_issue (conn c) \<noteq> [] \<and> wlen (conn c) = 0)"

section \<open>Progress\<close>

text \<open>A socket with room for whatever is left to send.\<close>

definition plenty :: sock_result where
  "plenty = Sock_room (2 ^ 64)"

text \<open>The machine rests only in the two send states.\<close>

definition rests_in_send :: "config \<Rightarrow> bool" where
  "rests_in_send c =
     (blocked c \<longrightarrow>
        state c = STATE_ISSUE_COMMAND_SEND_REQUEST \<or>
        state c = STATE_ISSUE_COMMAND_SEND_WRITE_PAYLOAD)"

text \<open>
  Some schedule without further enqueues takes the machine to \<^verbatim>\<open>READY\<close> with nothing left
  to issue.
\<close>

definition completes :: "memory \<Rightarrow> config \<Rightarrow> bool" where
  "completes mem c =
     (\<exists>es c'. enqueued es = [] \<and> run mem es c = Inr c' \<and>
        state c' = STATE_READY \<and> cmds_to_issue (conn c') = [])"

section \<open>The assertions of the handlers\<close>

text \<open>What the \<^verbatim>\<open>assert\<close> lines of each handler demand of the handle on entry.\<close>

fun state_assertions :: "state \<Rightarrow> nbd_handle \<Rightarrow> bool" where
  "state_assertions STATE_ISSUE_COMMAND_START h = (cmds_to_issue h \<noteq> [])"
| "state_assertions STATE_ISSUE_COMMAND_PAUSE_SEND_REQUEST h =
     (wlen h \<noteq> 0 \<and> cmds_to_issue h \<noteq> [])"
| "state_assertions STATE_ISSUE_COMMAND_PREPARE_WRITE_PAYLOAD h =
     (cmds_to_issue h \<noteq> [] \<and>
      command_in_flight.handle (hd (cmds_to_issue h)) =
        be64toh (nbd_request.handle (request h)))"
| "state_assertions STATE_ISSUE_COMMAND_PAUSE_WRITE_PAYLOAD h =
     (wlen h \<noteq> 0 \<and> cmds_to_issue h \<noteq> [])"
| "state_assertions STATE_ISSUE_COMMAND_FINISH h =
     (wlen h = 0 \<and> cmds_to_issue h \<noteq> [] \<and>
      command_in_flight.handle (hd (cmds_to_issue h)) =
        be64toh (nbd_request.handle (request h)))"
| "state_assertions s h = True"

definition assertions_hold :: "config \<Rightarrow> bool" where
  "assertions_hold c = state_assertions (state c) (conn c)"

section \<open>Example commands and schedules\<close>

definition example_write :: command_in_flight where
  "example_write =
     \<lparr>command_in_flight.flags = 0, command_in_flight.type = NBD_CMD_WRITE,
      command_in_flight.handle = 1, command_in_flight.offset = 4096,
      command_in_flight.count = 8, data = 1\<rparr>"

definition example_flagged :: command_in_flight where
  "example_flagged =
     \<lparr>command_in_flight.flags = 0xA1B2, command_in_flight.type = NBD_CMD_WRITE_ZEROES,
      command_in_flight.handle = 0x0102030405060708,
      command_in_flight.offset = 0x1112131415161718,
      command_in_flight.count = 0x21222324, data = 1\<rparr>"

definition example_read :: command_in_flight where
  "example_read =
     \<lparr>command_in_flight.flags = 0, command_in_flight.type = NBD_CMD_READ,
      command_in_flight.handle = 2, command_in_flight.offset = 0,
      command_in_flight.count = 512, data = 0\<rparr>"

definition example_zeroes :: command_in_flight where
  "example_zeroes =
     \<lparr>command_in_flight.flags = 0, command_in_flight.type = NBD_CMD_WRITE_ZEROES,
      command_in_flight.handle = 3, command_in_flight.offset = 0,
      command_in_flight.count = 8, data = 1\<rparr>"

definition example_huge :: command_in_flight where
  "example_huge =
     \<lparr>command_in_flight.flags = 0, command_in_flight.type = NBD_CMD_READ,
      command_in_flight.handle = 4, command_in_flight.offset = 0,
      command_in_flight.count = 4294967301, data = 0\<rparr>"

definition example_mem :: memory where
  "example_mem a = (if a = 1 then [0x11, 0x22, 0x33, 0x44, 0x55, 0x66, 0x77, 0x88] else [])"

text \<open>A handle with nothing in progress, and the machine about to enter \<^verbatim>\<open>START\<close>.\<close>

definition idle_handle :: "command_in_flight list \<Rightarrow> nbd_handle" where
  "idle_handle cmds =
     \<lparr>cmds_to_issue = cmds, cmds_in_flight = [],
      request = \<lparr>magic = [], flags = [], type = [], handle = [], offset = [], count = []\<rparr>,
      wbuf = Null_ptr, wlen = 0, wflags = 0, in_write_payload = False, sock_sent = []\<rparr>"

definition start_config :: "command_in_flight list \<Rightarrow> config" where
  "start_config cmds =
     \<lparr>state = STATE_ISSUE_COMMAND_START, blocked = False, conn = idle_handle cmds\<rparr>"

text \<open>A handle whose header send stopped after 10 of the 28 bytes.\<close>

definition paused_handle :: nbd_handle where
  "paused_handle =
     \<lparr>cmds_to_issue = [example_write], cmds_in_flight = [],
      request = hdr_of example_write,
      wbuf = Request_ptr 10, wlen = 18, wflags = MSG_MORE, in_write_payload = False,
      sock_sent = take 10 (wire_header example_write)\<rparr>"

text \<open>A handle whose header has been sent in full, with a second command queued.\<close>

definition sent_handle :: "command_in_flight \<Rightarrow> nbd_handle" where
  "sent_handle cmd =
     \<lparr>cmds_to_issue = [cmd, example_read], cmds_in_flight = [],
      request = hdr_of cmd,
      wbuf = Request_ptr 28, wlen = 0, wflags = 0, in_write_payload = False,
      sock_sent = wire_header cmd\<rparr>"

text \<open>
  A schedule for one write: the header goes out in two pieces with a visit to the reply
  path in between, the payload in two pieces with a wait for the socket in between.
\<close>

definition header_schedule :: "event list" where
  "header_schedule =
     [Run (Sock_room 0), Run (Sock_room 10), Notify_read, Run (Sock_room 0),
      Reply_done [], Run (Sock_room 0), Run (Sock_room 0), Run (Sock_room 100)]"

definition write_schedule :: "event list" where
  "write_schedule =
     header_schedule @
     [Run (Sock_room 0), Run (Sock_room 3), Notify_write, Run (Sock_room 100)]"

definition read_schedule :: "event list" where
  "read_schedule =
     [Run (Sock_room 0), Run (Sock_room 0), Run (Sock_room 28), Run (Sock_room 0),
      Run (Sock_room 0)]"

definition example_schedule :: "event list" where
  "example_schedule =
     write_schedule @ [Run (Sock_room 0), Enqueue example_read] @ read_schedule"

section \<open>Byte order and word arithmetic\<close>

lemma be_step:
  "push_bit 8 (take_bit (8 * n) (drop_bit 8 x)) OR ucast (ucast x :: byte) =
   take_bit (8 * Suc n) (x :: 'a::len word)"
  by (rule bit_word_eqI) (auto simp add: bit_simps)

lemma be_fold:
  "foldl (\<lambda>acc b. push_bit 8 acc OR ucast b) 0 (be_bytes n x) =
   take_bit (8 * n) (x :: 'a::len word)"
  by (induction n arbitrary: x) (simp_all add: be_step del: mult_Suc_right)

lemma htobe64_be_bytes: "htobe64 x = be_bytes 8 x"
  by (simp add: htobe64_def eval_nat_numeral)

lemma htobe32_be_bytes: "htobe32 x = be_bytes 4 x"
  by (simp add: htobe32_def eval_nat_numeral)

lemma be64toh_htobe64: "be64toh (htobe64 x) = x"
  by (simp add: be64toh_def htobe64_be_bytes be_fold take_bit_word_eq_self)

lemma be32toh_htobe32: "be32toh (htobe32 x) = x"
  by (simp add: be32toh_def htobe32_be_bytes be_fold take_bit_word_eq_self)

lemma length_wire_header: "length (wire_header cmd) = 28"
  by (simp add: wire_header_def htobe16_def htobe32_def htobe64_def)

lemma unat_sub_of_nat:
  "n \<le> unat (w :: 64 word) \<Longrightarrow> unat (w - of_nat n) = unat w - n"
proof -
  assume le: "n \<le> unat w"
  have "unat w < 2 ^ 64" using unsigned_less [of w] by simp
  with le have n: "n < 2 ^ 64" by simp
  then have un: "unat (of_nat n :: 64 word) = n"
    by (simp add: unat_of_nat)
  with le have "(of_nat n :: 64 word) \<le> w"
    by (simp add: word_le_nat_alt)
  then show ?thesis by (simp add: unat_sub un)
qed

lemma sub_of_nat_eq_0:
  "n \<le> unat (w :: 64 word) \<Longrightarrow> (w - of_nat n = 0) = (n = unat w)"
proof -
  assume le: "n \<le> unat w"
  have "(w - of_nat n = 0) = (unat (w - of_nat n) = 0)"
    by (simp add: unat_eq_0)
  also have "\<dots> = (n = unat w)" using le by (auto simp add: unat_sub_of_nat)
  finally show ?thesis .
qed

section \<open>The send primitive: what one call does\<close>

lemma send_from_wbuf_room:
  assumes "wlen h \<noteq> 0" and "room \<noteq> 0"
  shows "send_from_wbuf mem (Sock_room room) h =
     (if unat (wlen h) \<le> room
      then (0, h\<lparr>sock_sent := sock_sent h @ read_bytes mem h (wbuf h) (unat (wlen h)),
                 wbuf := ptr_add (wbuf h) (unat (wlen h)),
                 wlen := wlen h - of_nat (unat (wlen h)), wflags := 0\<rparr>)
      else (1, h\<lparr>sock_sent := sock_sent h @ read_bytes mem h (wbuf h) room,
                 wbuf := ptr_add (wbuf h) room,
                 wlen := wlen h - of_nat room\<rparr>))"
proof (cases "unat (wlen h) \<le> room")
  case True
  then have "min room (unat (wlen h)) = unat (wlen h)" by simp
  with assms True show ?thesis
    unfolding send_from_wbuf_def Let_def by simp
next
  case False
  then have m: "min room (unat (wlen h)) = room" and le: "room \<le> unat (wlen h)"
    and ne: "room \<noteq> unat (wlen h)" by simp_all
  have "wlen h - of_nat room \<noteq> 0"
    using sub_of_nat_eq_0 [OF le] ne by blast
  with assms False m show ?thesis
    unfolding send_from_wbuf_def Let_def by simp
qed

lemma send_from_wbuf_cases:
  obtains (idle) "wlen h = 0" "send_from_wbuf mem sr h = (0, h\<lparr>wflags := 0\<rparr>)"
  | (fatal) "wlen h \<noteq> 0" "sr = Sock_error" "send_from_wbuf mem sr h = (- 1, h)"
  | (would_block) "wlen h \<noteq> 0" "send_from_wbuf mem sr h = (1, h)"
  | (drained) "wlen h \<noteq> 0"
      "send_from_wbuf mem sr h =
         (0, h\<lparr>sock_sent := sock_sent h @ read_bytes mem h (wbuf h) (unat (wlen h)),
               wbuf := ptr_add (wbuf h) (unat (wlen h)),
               wlen := 0, wflags := 0\<rparr>)"
  | (partial) n where "wlen h \<noteq> 0" "n < unat (wlen h)"
      "unat (wlen h - of_nat n) = unat (wlen h) - n" "wlen h - of_nat n \<noteq> 0"
      "send_from_wbuf mem sr h =
         (1, h\<lparr>sock_sent := sock_sent h @ read_bytes mem h (wbuf h) n,
               wbuf := ptr_add (wbuf h) n,
               wlen := wlen h - of_nat n\<rparr>)"
proof (cases "wlen h = 0")
  case True
  then show ?thesis using idle by (simp add: send_from_wbuf_def)
next
  case wl: False
  show ?thesis
  proof (cases sr)
    case Sock_error
    with wl show ?thesis using fatal by (simp add: send_from_wbuf_def)
  next
    case (Sock_room room)
    show ?thesis
    proof (cases "room = 0")
      case True
      with wl Sock_room show ?thesis using would_block by (simp add: send_from_wbuf_def)
    next
      case r: False
      show ?thesis
      proof (cases "unat (wlen h) \<le> room")
        case True
        with wl r Sock_room show ?thesis
          using drained send_from_wbuf_room [OF wl r, of mem] by simp
      next
        case False
        then have lt: "room < unat (wlen h)" and le: "room \<le> unat (wlen h)" by simp_all
        have "wlen h - of_nat room \<noteq> 0"
          using sub_of_nat_eq_0 [OF le] lt by simp
        with wl r Sock_room False lt show ?thesis
          using partial [of room] send_from_wbuf_room [OF wl r, of mem]
            unat_sub_of_nat [OF le] by simp
      qed
    qed
  qed
qed

lemma send_unchanged:
  "cmds_to_issue (snd (send_from_wbuf mem sr h)) = cmds_to_issue h"
  "cmds_in_flight (snd (send_from_wbuf mem sr h)) = cmds_in_flight h"
  "request (snd (send_from_wbuf mem sr h)) = request h"
  "in_write_payload (snd (send_from_wbuf mem sr h)) = in_write_payload h"
  by (cases rule: send_from_wbuf_cases [where h = h and mem = mem and sr = sr]; simp)+

lemma send_result:
  "fst (send_from_wbuf mem sr h) = - 1 \<or> fst (send_from_wbuf mem sr h) = 0 \<or>
   fst (send_from_wbuf mem sr h) = 1"
  by (cases rule: send_from_wbuf_cases [where h = h and mem = mem and sr = sr]) simp_all

lemma send_fatal:
  "fst (send_from_wbuf mem sr h) = - 1 \<Longrightarrow> snd (send_from_wbuf mem sr h) = h"
  by (cases rule: send_from_wbuf_cases [where h = h and mem = mem and sr = sr]) simp_all

lemma send_wlen:
  "fst (send_from_wbuf mem sr h) = 0 \<Longrightarrow> wlen (snd (send_from_wbuf mem sr h)) = 0"
  "fst (send_from_wbuf mem sr h) = 1 \<Longrightarrow> wlen (snd (send_from_wbuf mem sr h)) \<noteq> 0"
  by (cases rule: send_from_wbuf_cases [where h = h and mem = mem and sr = sr]; simp)+

lemma send_cursor_sum:
  "\<exists>n. n \<le> unat (wlen h) \<and>
       unat (wlen (snd (send_from_wbuf mem sr h))) = unat (wlen h) - n \<and>
       wbuf (snd (send_from_wbuf mem sr h)) = ptr_add (wbuf h) n \<and>
       sock_sent (snd (send_from_wbuf mem sr h)) =
         sock_sent h @ read_bytes mem h (wbuf h) n"
proof (cases rule: send_from_wbuf_cases [where h = h and mem = mem and sr = sr])
  case idle
  then show ?thesis by (intro exI [of _ 0]) (cases "wbuf h"; simp)
next
  case fatal
  then show ?thesis by (intro exI [of _ 0]) (cases "wbuf h"; simp)
next
  case would_block
  then show ?thesis by (intro exI [of _ 0]) (cases "wbuf h"; simp)
next
  case drained
  then show ?thesis by (intro exI [of _ "unat (wlen h)"]) simp
next
  case (partial n)
  then show ?thesis by (intro exI [of _ n]) simp
qed

lemma read_bytes_request:
  "request h' = request h \<Longrightarrow> read_bytes mem h' p n = read_bytes mem h p n"
  by (cases p) simp_all

lemma read_bytes_split:
  "n \<le> m \<Longrightarrow>
   read_bytes mem h p n @ read_bytes mem h (ptr_add p n) (m - n) = read_bytes mem h p m"
proof (cases p)
  case Null_ptr
  then show ?thesis by simp
next
  case (Request_ptr k)
  assume "n \<le> m"
  then have "take m (drop k (request_bytes (request h))) =
     take n (drop k (request_bytes (request h))) @
     take (m - n) (drop n (drop k (request_bytes (request h))))"
    using take_add [of n "m - n" "drop k (request_bytes (request h))"] by simp
  with Request_ptr show ?thesis by (simp add: add.commute)
next
  case (Data_ptr a k)
  assume "n \<le> m"
  then have "take m (drop k (mem a)) =
     take n (drop k (mem a)) @ take (m - n) (drop n (drop k (mem a)))"
    using take_add [of n "m - n" "drop k (mem a)"] by simp
  with Data_ptr show ?thesis by (simp add: add.commute)
qed

lemma send_stream:
  "sock_sent (snd (send_from_wbuf mem sr h)) @ cursor mem (snd (send_from_wbuf mem sr h)) =
   sock_sent h @ cursor mem h"
proof -
  let ?h' = "snd (send_from_wbuf mem sr h)"
  obtain n where n: "n \<le> unat (wlen h)"
    and wl: "unat (wlen ?h') = unat (wlen h) - n"
    and wb: "wbuf ?h' = ptr_add (wbuf h) n"
    and ss: "sock_sent ?h' = sock_sent h @ read_bytes mem h (wbuf h) n"
    using send_cursor_sum [of h mem sr] by blast
  have "cursor mem ?h' = read_bytes mem h (ptr_add (wbuf h) n) (unat (wlen h) - n)"
    by (simp add: cursor_def wl wb read_bytes_request [OF send_unchanged(3)])
  then show ?thesis
    using read_bytes_split [OF n, of mem h "wbuf h"] by (simp add: ss cursor_def)
qed

lemma send_hdr_phase:
  "hdr_phase h \<Longrightarrow> hdr_phase (snd (send_from_wbuf mem sr h))"
proof -
  assume a: "hdr_phase h"
  let ?h' = "snd (send_from_wbuf mem sr h)"
  obtain n where n: "n \<le> unat (wlen h)"
    and wl: "unat (wlen ?h') = unat (wlen h) - n"
    and wb: "wbuf ?h' = ptr_add (wbuf h) n"
    using send_cursor_sum [of h mem sr] by blast
  from a n show ?thesis
    by (auto simp add: hdr_phase_def send_unchanged wl wb
        split: list.splits pointer.splits)
qed

lemma send_pay_phase:
  "pay_phase h \<Longrightarrow> pay_phase (snd (send_from_wbuf mem sr h))"
proof -
  assume a: "pay_phase h"
  let ?h' = "snd (send_from_wbuf mem sr h)"
  obtain n where n: "n \<le> unat (wlen h)"
    and wl: "unat (wlen ?h') = unat (wlen h) - n"
    and wb: "wbuf ?h' = ptr_add (wbuf h) n"
    using send_cursor_sum [of h mem sr] by blast
  from a n show ?thesis
    by (auto simp add: pay_phase_def send_unchanged wl wb
        split: list.splits pointer.splits)
qed

section \<open>Each handler keeps the invariant and the stream\<close>

lemma request_bytes_hdr_of: "request_bytes (hdr_of cmd) = wire_header cmd"
  by (simp add: request_bytes_def hdr_of_def wire_header_def)

lemma hdr_of_handle: "be64toh (nbd_request.handle (hdr_of cmd)) = command_in_flight.handle cmd"
  by (simp add: hdr_of_def be64toh_htobe64)

lemma frames_Cons: "frames mem (cmd # nxt) = wire_header cmd @ payload mem cmd @ frames mem nxt"
  by (simp add: frames_def frame_def)

lemma frames_append: "frames mem (xs @ ys) = frames mem xs @ frames mem ys"
  by (simp add: frames_def)

lemma frames_Nil: "frames mem [] = []"
  by (simp add: frames_def)

lemma cursor_idle: "wlen h = 0 \<Longrightarrow> cursor mem h = []"
  by (cases "wbuf h") (simp_all add: cursor_def)

lemma unat_sizeof_request: "unat sizeof_request = 28" "sizeof_request \<noteq> 0"
  by (simp_all add: sizeof_request_def)

lemma START_advances:
  assumes "state c = STATE_ISSUE_COMMAND_START" and "machine_inv c"
  shows "\<exists>c'. after_handler c (ISSUE_COMMAND_START (conn c)) = Inr c' \<and> advances mem [] c c'"
proof -
  let ?h = "conn c"
  from assms obtain cmd nxt where q: "cmds_to_issue ?h = cmd # nxt"
    and r: "resting_ok ?h"
    by (cases "cmds_to_issue ?h") (auto simp add: machine_inv_def)
  show ?thesis
  proof (cases "wlen ?h = 0")
    case True
    let ?h' = "?h\<lparr>request := hdr_of cmd, wbuf := Request_ptr 0, wlen := sizeof_request,
      wflags := (if command_in_flight.type cmd = NBD_CMD_WRITE \<or> nxt \<noteq> []
                    then MSG_MORE else wflags ?h)\<rparr>"
    let ?c' = "\<lparr>state = STATE_ISSUE_COMMAND_SEND_REQUEST, blocked = False, conn = ?h'\<rparr>"
    have run: "after_handler c (ISSUE_COMMAND_START ?h) = Inr ?c'"
      using q True by (simp add: ISSUE_COMMAND_START_def after_handler_def hdr_of_def)
    have i: "machine_inv ?c'"
      using q by (simp add: machine_inv_def hdr_phase_def unat_sizeof_request)
    have "cursor mem ?h' = wire_header cmd"
      by (simp add: cursor_def unat_sizeof_request request_bytes_hdr_of length_wire_header)
    then have "sock_sent (conn ?c') @ pending mem ?c' = sock_sent ?h @ pending mem c @ []"
      using q True assms(1)
      by (simp add: pending_def resting_pending_def behind_header_def frames_Cons)
    with run i show ?thesis by (intro exI [of _ ?c']) (simp add: advances_def)
  next
    case False
    show ?thesis
    proof (cases "in_write_payload ?h")
      case True
      let ?c' = "\<lparr>state = STATE_ISSUE_COMMAND_SEND_WRITE_PAYLOAD, blocked = False, conn = ?h\<rparr>"
      have run: "after_handler c (ISSUE_COMMAND_START ?h) = Inr ?c'"
        using q True False by (simp add: ISSUE_COMMAND_START_def after_handler_def)
      have i: "machine_inv ?c'" using r True False by (simp add: machine_inv_def resting_ok_def)
      have "sock_sent (conn ?c') @ pending mem ?c' = sock_sent ?h @ pending mem c @ []"
        using True False assms(1) by (simp add: pending_def resting_pending_def)
      with run i show ?thesis by (intro exI [of _ ?c']) (simp add: advances_def)
    next
      case iwp: False
      let ?c' = "\<lparr>state = STATE_ISSUE_COMMAND_SEND_REQUEST, blocked = False, conn = ?h\<rparr>"
      have run: "after_handler c (ISSUE_COMMAND_START ?h) = Inr ?c'"
        using q iwp False by (simp add: ISSUE_COMMAND_START_def after_handler_def)
      have i: "machine_inv ?c'" using r iwp False by (simp add: machine_inv_def resting_ok_def)
      have "sock_sent (conn ?c') @ pending mem ?c' = sock_sent ?h @ pending mem c @ []"
        using iwp False assms(1) by (simp add: pending_def resting_pending_def)
      with run i show ?thesis by (intro exI [of _ ?c']) (simp add: advances_def)
    qed
  qed
qed

lemma SEND_REQUEST_advances:
  assumes "state c = STATE_ISSUE_COMMAND_SEND_REQUEST" and "machine_inv c"
  shows "\<exists>c'. after_handler c (ISSUE_COMMAND_SEND_REQUEST mem sr (conn c)) = Inr c' \<and>
     advances mem [] c c'"
proof -
  let ?h = "conn c"
  let ?r = "fst (send_from_wbuf mem sr ?h)"
  let ?h' = "snd (send_from_wbuf mem sr ?h)"
  from assms have ph: "hdr_phase ?h" by (simp add: machine_inv_def)
  then have ph': "hdr_phase ?h'" by (rule send_hdr_phase)
  have bh: "behind_header mem ?h' = behind_header mem ?h"
    by (simp add: behind_header_def send_unchanged)
  have stream: "sock_sent ?h' @ cursor mem ?h' = sock_sent ?h @ cursor mem ?h"
    by (rule send_stream)
  consider "?r = - 1" | "?r = 0" | "?r = 1" using send_result [of mem sr ?h] by blast
  then show ?thesis
  proof cases
    case 1
    let ?c' = "\<lparr>state = STATE_DEAD, blocked = False, conn = ?h'\<rparr>"
    have "after_handler c (ISSUE_COMMAND_SEND_REQUEST mem sr ?h) = Inr ?c'"
      using 1 by (simp add: ISSUE_COMMAND_SEND_REQUEST_def after_handler_def split_beta)
    moreover have "advances mem [] c ?c'"
      using send_fatal [OF 1] by (simp add: advances_def machine_inv_def)
    ultimately show ?thesis by blast
  next
    case 2
    let ?c' = "\<lparr>state = STATE_ISSUE_COMMAND_PREPARE_WRITE_PAYLOAD, blocked = False, conn = ?h'\<rparr>"
    have w0: "wlen ?h' = 0" using 2 by (rule send_wlen)
    have "after_handler c (ISSUE_COMMAND_SEND_REQUEST mem sr ?h) = Inr ?c'"
      using 2 by (simp add: ISSUE_COMMAND_SEND_REQUEST_def after_handler_def split_beta)
    moreover have "machine_inv ?c'"
      using ph' w0 by (auto simp add: machine_inv_def hdr_phase_def hdr_sent_def split: list.splits)
    moreover have "sock_sent ?h' @ behind_header mem ?h' =
        sock_sent ?h @ cursor mem ?h @ behind_header mem ?h"
      using stream cursor_idle [OF w0, of mem] bh by simp
    ultimately show ?thesis
      using assms(1) by (intro exI [of _ ?c']) (simp add: advances_def pending_def)
  next
    case 3
    let ?c' = "\<lparr>state = state c, blocked = True, conn = ?h'\<rparr>"
    have w0: "wlen ?h' \<noteq> 0" using 3 by (rule send_wlen)
    have "after_handler c (ISSUE_COMMAND_SEND_REQUEST mem sr ?h) = Inr ?c'"
      using 3 by (simp add: ISSUE_COMMAND_SEND_REQUEST_def after_handler_def split_beta)
    moreover have "machine_inv ?c'"
      using ph' w0 assms(1) by (simp add: machine_inv_def)
    moreover have "sock_sent ?h' @ cursor mem ?h' @ behind_header mem ?h' =
        sock_sent ?h @ cursor mem ?h @ behind_header mem ?h"
      using stream bh by (simp flip: append_assoc)
    ultimately show ?thesis
      using assms(1) by (intro exI [of _ ?c']) (simp add: advances_def pending_def)
  qed
qed

lemma SEND_WRITE_PAYLOAD_advances:
  assumes "state c = STATE_ISSUE_COMMAND_SEND_WRITE_PAYLOAD" and "machine_inv c"
  shows "\<exists>c'. after_handler c (ISSUE_COMMAND_SEND_WRITE_PAYLOAD mem sr (conn c)) = Inr c' \<and>
     advances mem [] c c'"
proof -
  let ?h = "conn c"
  let ?r = "fst (send_from_wbuf mem sr ?h)"
  let ?h' = "snd (send_from_wbuf mem sr ?h)"
  from assms have ph: "pay_phase ?h" by (simp add: machine_inv_def)
  then have ph': "pay_phase ?h'" by (rule send_pay_phase)
  have bh: "behind_command mem ?h' = behind_command mem ?h"
    by (simp add: behind_command_def send_unchanged)
  have stream: "sock_sent ?h' @ cursor mem ?h' = sock_sent ?h @ cursor mem ?h"
    by (rule send_stream)
  consider "?r = - 1" | "?r = 0" | "?r = 1" using send_result [of mem sr ?h] by blast
  then show ?thesis
  proof cases
    case 1
    let ?c' = "\<lparr>state = STATE_DEAD, blocked = False, conn = ?h'\<rparr>"
    have "after_handler c (ISSUE_COMMAND_SEND_WRITE_PAYLOAD mem sr ?h) = Inr ?c'"
      using 1 by (simp add: ISSUE_COMMAND_SEND_WRITE_PAYLOAD_def after_handler_def split_beta)
    moreover have "advances mem [] c ?c'"
      using send_fatal [OF 1] by (simp add: advances_def machine_inv_def)
    ultimately show ?thesis by blast
  next
    case 2
    let ?c' = "\<lparr>state = STATE_ISSUE_COMMAND_FINISH, blocked = False, conn = ?h'\<rparr>"
    have w0: "wlen ?h' = 0" using 2 by (rule send_wlen)
    have "after_handler c (ISSUE_COMMAND_SEND_WRITE_PAYLOAD mem sr ?h) = Inr ?c'"
      using 2 by (simp add: ISSUE_COMMAND_SEND_WRITE_PAYLOAD_def after_handler_def split_beta)
    moreover have "machine_inv ?c'"
      using ph' w0 by (auto simp add: machine_inv_def pay_phase_def hdr_sent_def split: list.splits)
    moreover have "sock_sent ?h' @ behind_command mem ?h' =
        sock_sent ?h @ cursor mem ?h @ behind_command mem ?h"
      using stream cursor_idle [OF w0, of mem] bh by simp
    ultimately show ?thesis
      using assms(1) by (intro exI [of _ ?c']) (simp add: advances_def pending_def)
  next
    case 3
    let ?c' = "\<lparr>state = state c, blocked = True, conn = ?h'\<rparr>"
    have w0: "wlen ?h' \<noteq> 0" using 3 by (rule send_wlen)
    have "after_handler c (ISSUE_COMMAND_SEND_WRITE_PAYLOAD mem sr ?h) = Inr ?c'"
      using 3 by (simp add: ISSUE_COMMAND_SEND_WRITE_PAYLOAD_def after_handler_def split_beta)
    moreover have "machine_inv ?c'"
      using ph' w0 assms(1) by (simp add: machine_inv_def)
    moreover have "sock_sent ?h' @ cursor mem ?h' @ behind_command mem ?h' =
        sock_sent ?h @ cursor mem ?h @ behind_command mem ?h"
      using stream bh by (simp flip: append_assoc)
    ultimately show ?thesis
      using assms(1) by (intro exI [of _ ?c']) (simp add: advances_def pending_def)
  qed
qed
lemma PAUSE_SEND_REQUEST_advances:
  assumes "state c = STATE_ISSUE_COMMAND_PAUSE_SEND_REQUEST" and "machine_inv c"
  shows "\<exists>c'. after_handler c (ISSUE_COMMAND_PAUSE_SEND_REQUEST (conn c)) = Inr c' \<and>
     advances mem [] c c'"
proof -
  let ?h = "conn c"
  let ?c' = "\<lparr>state = STATE_REPLY_START, blocked = False,
              conn = ?h\<lparr>in_write_payload := False\<rparr>\<rparr>"
  from assms have ph: "hdr_phase ?h" and wl: "wlen ?h \<noteq> 0" by (simp_all add: machine_inv_def)
  from ph have q: "cmds_to_issue ?h \<noteq> []" by (auto simp add: hdr_phase_def)
  have "after_handler c (ISSUE_COMMAND_PAUSE_SEND_REQUEST ?h) = Inr ?c'"
    using wl q by (simp add: ISSUE_COMMAND_PAUSE_SEND_REQUEST_def after_handler_def)
  moreover have "machine_inv ?c'"
    using ph by (auto simp add: machine_inv_def resting_ok_def hdr_phase_def split: list.splits pointer.splits)
  moreover have "pending mem ?c' = pending mem c"
    using assms(1) wl
    by (simp add: pending_def resting_pending_def cursor_def behind_header_def
        read_bytes_request [of "?h\<lparr>in_write_payload := False\<rparr>" ?h])
  ultimately show ?thesis by (intro exI [of _ ?c']) (simp add: advances_def)
qed

lemma PAUSE_WRITE_PAYLOAD_advances:
  assumes "state c = STATE_ISSUE_COMMAND_PAUSE_WRITE_PAYLOAD" and "machine_inv c"
  shows "\<exists>c'. after_handler c (ISSUE_COMMAND_PAUSE_WRITE_PAYLOAD (conn c)) = Inr c' \<and>
     advances mem [] c c'"
proof -
  let ?h = "conn c"
  let ?c' = "\<lparr>state = STATE_REPLY_START, blocked = False,
              conn = ?h\<lparr>in_write_payload := True\<rparr>\<rparr>"
  from assms have ph: "pay_phase ?h" and wl: "wlen ?h \<noteq> 0" by (simp_all add: machine_inv_def)
  from ph have q: "cmds_to_issue ?h \<noteq> []" by (auto simp add: pay_phase_def)
  have "after_handler c (ISSUE_COMMAND_PAUSE_WRITE_PAYLOAD ?h) = Inr ?c'"
    using wl q by (simp add: ISSUE_COMMAND_PAUSE_WRITE_PAYLOAD_def after_handler_def)
  moreover have "machine_inv ?c'"
    using ph by (auto simp add: machine_inv_def resting_ok_def pay_phase_def split: list.splits pointer.splits)
  moreover have "pending mem ?c' = pending mem c"
    using assms(1) wl
    by (simp add: pending_def resting_pending_def cursor_def behind_command_def
        read_bytes_request [of "?h\<lparr>in_write_payload := True\<rparr>" ?h])
  ultimately show ?thesis by (intro exI [of _ ?c']) (simp add: advances_def)
qed

lemma PREPARE_WRITE_PAYLOAD_advances:
  assumes "state c = STATE_ISSUE_COMMAND_PREPARE_WRITE_PAYLOAD" and "machine_inv c"
  shows "\<exists>c'. after_handler c (ISSUE_COMMAND_PREPARE_WRITE_PAYLOAD (conn c)) = Inr c' \<and>
     advances mem [] c c'"
proof -
  let ?h = "conn c"
  from assms obtain cmd nxt where q: "cmds_to_issue ?h = cmd # nxt"
    and rq: "request ?h = hdr_of cmd" and wl: "wlen ?h = 0"
    by (cases "cmds_to_issue ?h") (auto simp add: machine_inv_def hdr_sent_def)
  have hd: "command_in_flight.handle cmd = be64toh (nbd_request.handle (request ?h))"
    by (simp add: rq hdr_of_handle)
  show ?thesis
  proof (cases "command_in_flight.type cmd = NBD_CMD_WRITE")
    case True
    let ?h' = "?h\<lparr>wbuf := Data_ptr (data cmd) 0, wlen := command_in_flight.count cmd,
                 wflags := (if nxt \<noteq> [] \<and> command_in_flight.count cmd < 64 * 1024
                    then MSG_MORE else wflags ?h)\<rparr>"
    let ?c' = "\<lparr>state = STATE_ISSUE_COMMAND_SEND_WRITE_PAYLOAD, blocked = False, conn = ?h'\<rparr>"
    have "after_handler c (ISSUE_COMMAND_PREPARE_WRITE_PAYLOAD ?h) = Inr ?c'"
      using q hd True
      by (simp add: ISSUE_COMMAND_PREPARE_WRITE_PAYLOAD_def after_handler_def)
    moreover have "machine_inv ?c'"
      using q rq True by (simp add: machine_inv_def pay_phase_def)
    moreover have "pending mem ?c' = pending mem c"
      using assms(1) q True
      by (simp add: pending_def cursor_def behind_header_def behind_command_def payload_def)
    ultimately show ?thesis by (intro exI [of _ ?c']) (simp add: advances_def)
  next
    case False
    let ?c' = "\<lparr>state = STATE_ISSUE_COMMAND_FINISH, blocked = False, conn = ?h\<rparr>"
    have "after_handler c (ISSUE_COMMAND_PREPARE_WRITE_PAYLOAD ?h) = Inr ?c'"
      using q hd False
      by (simp add: ISSUE_COMMAND_PREPARE_WRITE_PAYLOAD_def after_handler_def)
    moreover have "machine_inv ?c'"
      using q rq wl by (simp add: machine_inv_def hdr_sent_def)
    moreover have "pending mem ?c' = pending mem c"
      using assms(1) q False
      by (simp add: pending_def behind_header_def behind_command_def payload_def)
    ultimately show ?thesis by (intro exI [of _ ?c']) (simp add: advances_def)
  qed
qed

lemma FINISH_advances:
  assumes "state c = STATE_ISSUE_COMMAND_FINISH" and "machine_inv c"
  shows "\<exists>c'. after_handler c (ISSUE_COMMAND_FINISH (conn c)) = Inr c' \<and>
     advances mem [] c c'"
proof -
  let ?h = "conn c"
  from assms obtain cmd nxt where q: "cmds_to_issue ?h = cmd # nxt"
    and rq: "request ?h = hdr_of cmd" and wl: "wlen ?h = 0"
    by (cases "cmds_to_issue ?h") (auto simp add: machine_inv_def hdr_sent_def)
  have hd: "command_in_flight.handle cmd = be64toh (nbd_request.handle (request ?h))"
    by (simp add: rq hdr_of_handle)
  let ?h' = "?h\<lparr>cmds_to_issue := nxt, cmds_in_flight := cmd # cmds_in_flight ?h\<rparr>"
  let ?c' = "\<lparr>state = STATE_READY, blocked = False, conn = ?h'\<rparr>"
  have "after_handler c (ISSUE_COMMAND_FINISH ?h) = Inr ?c'"
    using q hd wl by (simp add: ISSUE_COMMAND_FINISH_def after_handler_def)
  moreover have "machine_inv ?c'"
    using wl by (simp add: machine_inv_def resting_ok_def)
  moreover have "pending mem ?c' = pending mem c"
    using assms(1) q wl by (simp add: pending_def resting_pending_def behind_command_def)
  ultimately show ?thesis by (intro exI [of _ ?c']) (simp add: advances_def)
qed

lemma advances_refl: "machine_inv c \<Longrightarrow> advances mem [] c c"
  by (simp add: advances_def)

lemma enter_state_advances:
  assumes "machine_inv c"
  shows "\<exists>c'. enter_state mem sr (state c) c = Inr c' \<and> advances mem [] c c'"
proof (cases "state c")
  case STATE_READY
  show ?thesis
  proof (cases "cmds_to_issue (conn c) = []")
    case True
    with STATE_READY assms show ?thesis by (simp add: advances_refl)
  next
    case False
    let ?c' = "c\<lparr>state := STATE_ISSUE_COMMAND_START, blocked := False\<rparr>"
    have "machine_inv ?c'" using assms STATE_READY False by (simp add: machine_inv_def)
    moreover have "pending mem ?c' = pending mem c"
      using STATE_READY by (simp add: pending_def)
    ultimately show ?thesis
      using STATE_READY False by (simp add: advances_def)
  qed
next
  case STATE_DEAD
  with assms show ?thesis by (simp add: advances_refl)
next
  case STATE_REPLY_START
  with assms show ?thesis by (simp add: advances_refl)
next
  case STATE_ISSUE_COMMAND_START
  with assms show ?thesis using START_advances [of c mem] by simp
next
  case STATE_ISSUE_COMMAND_SEND_REQUEST
  with assms show ?thesis using SEND_REQUEST_advances [of c mem sr] by simp
next
  case STATE_ISSUE_COMMAND_PAUSE_SEND_REQUEST
  with assms show ?thesis using PAUSE_SEND_REQUEST_advances [of c mem] by simp
next
  case STATE_ISSUE_COMMAND_PREPARE_WRITE_PAYLOAD
  with assms show ?thesis using PREPARE_WRITE_PAYLOAD_advances [of c mem] by simp
next
  case STATE_ISSUE_COMMAND_SEND_WRITE_PAYLOAD
  with assms show ?thesis using SEND_WRITE_PAYLOAD_advances [of c mem sr] by simp
next
  case STATE_ISSUE_COMMAND_PAUSE_WRITE_PAYLOAD
  with assms show ?thesis using PAUSE_WRITE_PAYLOAD_advances [of c mem] by simp
next
  case STATE_ISSUE_COMMAND_FINISH
  with assms show ?thesis using FINISH_advances [of c mem] by simp
qed

section \<open>Steps and runs\<close>

lemma enqueue_phase:
  "hdr_phase h \<Longrightarrow> hdr_phase (h\<lparr>cmds_to_issue := cmds_to_issue h @ [cmd]\<rparr>)"
  "pay_phase h \<Longrightarrow> pay_phase (h\<lparr>cmds_to_issue := cmds_to_issue h @ [cmd]\<rparr>)"
  "hdr_sent h \<Longrightarrow> hdr_sent (h\<lparr>cmds_to_issue := cmds_to_issue h @ [cmd]\<rparr>)"
  by (auto simp add: hdr_phase_def pay_phase_def hdr_sent_def
      split: list.splits pointer.splits)

lemma enqueue_resting_ok:
  "resting_ok h \<Longrightarrow> resting_ok (h\<lparr>cmds_to_issue := cmds_to_issue h @ [cmd]\<rparr>)"
  using enqueue_phase(1,2) [of h cmd] by (auto simp add: resting_ok_def)

lemma enqueue_cursor:
  "cursor mem (h\<lparr>cmds_to_issue := q\<rparr>) = cursor mem h"
  by (simp add: cursor_def read_bytes_request [of "h\<lparr>cmds_to_issue := q\<rparr>" h])

lemma enqueue_behind:
  "cmds_to_issue h \<noteq> [] \<Longrightarrow>
   behind_header mem (h\<lparr>cmds_to_issue := cmds_to_issue h @ [cmd]\<rparr>) =
   behind_header mem h @ frame mem cmd"
  "cmds_to_issue h \<noteq> [] \<Longrightarrow>
   behind_command mem (h\<lparr>cmds_to_issue := cmds_to_issue h @ [cmd]\<rparr>) =
   behind_command mem h @ frame mem cmd"
  by (cases "cmds_to_issue h";
      simp add: behind_header_def behind_command_def frames_def)+

lemma phase_nonempty:
  "hdr_phase h \<Longrightarrow> cmds_to_issue h \<noteq> []"
  "pay_phase h \<Longrightarrow> cmds_to_issue h \<noteq> []"
  "hdr_sent h \<Longrightarrow> cmds_to_issue h \<noteq> []"
  by (auto simp add: hdr_phase_def pay_phase_def hdr_sent_def)

lemma enqueue_resting_pending:
  assumes "resting_ok h"
  shows "resting_pending mem (h\<lparr>cmds_to_issue := cmds_to_issue h @ [cmd]\<rparr>) =
     resting_pending mem h @ frame mem cmd"
proof (cases "wlen h = 0")
  case True
  then show ?thesis by (simp add: resting_pending_def frames_def)
next
  case False
  with assms have "cmds_to_issue h \<noteq> []"
    using phase_nonempty(1,2) [of h] by (auto simp add: resting_ok_def split: if_splits)
  with False show ?thesis
    by (simp add: resting_pending_def enqueue_cursor enqueue_behind)
qed

lemma enqueue_advances:
  assumes "machine_inv c" and "state c \<noteq> STATE_DEAD"
  shows "advances mem (frame mem cmd) c
     (c\<lparr>conn := (conn c)\<lparr>cmds_to_issue := cmds_to_issue (conn c) @ [cmd]\<rparr>\<rparr>)"
proof -
  let ?h = "conn c"
  let ?h' = "?h\<lparr>cmds_to_issue := cmds_to_issue ?h @ [cmd]\<rparr>"
  have i: "state_inv (state c) (blocked c) ?h'"
    using assms(1) enqueue_phase [of ?h cmd] enqueue_resting_ok [of ?h cmd]
    by (cases "state c") (auto simp add: machine_inv_def)
  have p: "state_pending mem (state c) ?h' = state_pending mem (state c) ?h @ frame mem cmd"
    using assms enqueue_resting_pending [of ?h mem cmd] phase_nonempty [of ?h]
    by (cases "state c")
      (auto simp add: machine_inv_def enqueue_cursor enqueue_behind)
  from i p assms(2) show ?thesis
    by (simp add: advances_def machine_inv_def pending_def)
qed

lemma in_flight_phase:
  "hdr_phase (h\<lparr>cmds_in_flight := fl\<rparr>) = hdr_phase h"
  "pay_phase (h\<lparr>cmds_in_flight := fl\<rparr>) = pay_phase h"
  by (auto simp add: hdr_phase_def pay_phase_def split: list.splits pointer.splits)

lemma step_advances:
  assumes "machine_inv c"
  shows "\<exists>c'. step mem ev c = Inr c' \<and> advances mem (frames mem (enqueued [ev])) c c'"
proof (cases ev)
  case (Run sr)
  with assms show ?thesis
    using enter_state_advances [of c mem sr] by (simp add: advances_refl frames_Nil)
next
  case Notify_write
  have "machine_inv (c\<lparr>blocked := False\<rparr>)" if "state c = STATE_ISSUE_COMMAND_SEND_REQUEST \<or>
      state c = STATE_ISSUE_COMMAND_SEND_WRITE_PAYLOAD"
    using that assms by (auto simp add: machine_inv_def)
  then show ?thesis
    using assms Notify_write
    by (auto simp add: frames_Nil advances_refl) (auto simp add: advances_def pending_def)
next
  case Notify_read
  show ?thesis
    using assms Notify_read
    by (auto simp add: frames_Nil advances_refl)
      (auto simp add: advances_def pending_def machine_inv_def)
next
  case (Reply_done fl)
  show ?thesis
  proof (cases "state c = STATE_REPLY_START")
    case True
    let ?h' = "(conn c)\<lparr>cmds_in_flight := fl\<rparr>"
    have "resting_ok ?h'"
      using assms True
      by (auto simp add: machine_inv_def resting_ok_def in_flight_phase)
    moreover have "resting_pending mem ?h' = resting_pending mem (conn c)"
      by (simp add: resting_pending_def cursor_def behind_header_def behind_command_def
          read_bytes_request [of ?h' "conn c"])
    ultimately show ?thesis
      using True Reply_done
      by (simp add: frames_Nil advances_def machine_inv_def pending_def)
  next
    case False
    with assms Reply_done show ?thesis by (simp add: frames_Nil advances_refl)
  qed
next
  case (Enqueue cmd)
  show ?thesis
  proof (cases "state c = STATE_DEAD")
    case True
    with assms Enqueue show ?thesis by (simp add: advances_def)
  next
    case False
    with assms Enqueue show ?thesis
      using enqueue_advances [of c mem cmd] by (simp add: frames_def)
  qed
qed

lemma step_dead: "state c = STATE_DEAD \<Longrightarrow> step mem ev c = Inr c"
  by (cases ev) simp_all

lemma run_dead: "state c = STATE_DEAD \<Longrightarrow> run mem es c = Inr c"
  by (induction es) (simp_all add: step_dead)

lemma enqueued_Cons: "enqueued (e # es) = enqueued [e] @ enqueued es"
  by (cases e) simp_all

lemma run_advances:
  "machine_inv c \<Longrightarrow>
   \<exists>c'. run mem es c = Inr c' \<and> machine_inv c' \<and>
     (state c' \<noteq> STATE_DEAD \<longrightarrow>
        sock_sent (conn c') @ pending mem c' =
        sock_sent (conn c) @ pending mem c @ frames mem (enqueued es)) \<and>
     (\<exists>rest. sock_sent (conn c') @ rest =
        sock_sent (conn c) @ pending mem c @ frames mem (enqueued es))"
proof (induction es arbitrary: c)
  case Nil
  then show ?case by (simp add: frames_Nil)
next
  case (Cons e es)
  from step_advances [OF Cons.prems, of mem e]
  obtain c1 where s: "step mem e c = Inr c1"
    and a: "advances mem (frames mem (enqueued [e])) c c1" by blast
  from a have i1: "machine_inv c1" by (simp add: advances_def)
  have fr: "frames mem (enqueued (e # es)) =
      frames mem (enqueued [e]) @ frames mem (enqueued es)"
    using enqueued_Cons [of e es] by (simp add: frames_append)
  show ?case
  proof (cases "state c1 = STATE_DEAD")
    case True
    then have "run mem (e # es) c = Inr c1" using s by (simp add: run_dead)
    moreover have "sock_sent (conn c1) = sock_sent (conn c)"
      using a True by (simp add: advances_def)
    ultimately show ?thesis using i1 True by simp
  next
    case False
    then have eq1: "sock_sent (conn c1) @ pending mem c1 =
        sock_sent (conn c) @ pending mem c @ frames mem (enqueued [e])"
      using a by (simp add: advances_def)
    from Cons.IH [OF i1] obtain c' rest where r: "run mem es c1 = Inr c'"
      and i: "machine_inv c'"
      and eq: "state c' \<noteq> STATE_DEAD \<longrightarrow>
        sock_sent (conn c') @ pending mem c' =
        sock_sent (conn c1) @ pending mem c1 @ frames mem (enqueued es)"
      and pre: "sock_sent (conn c') @ rest =
        sock_sent (conn c1) @ pending mem c1 @ frames mem (enqueued es)"
      by blast
    have run: "run mem (e # es) c = Inr c'" using s r by simp
    have assoc: "sock_sent (conn c1) @ pending mem c1 @ frames mem (enqueued es) =
        sock_sent (conn c) @ pending mem c @ frames mem (enqueued (e # es))"
      using eq1 fr by (simp flip: append_assoc)
    from run i eq pre assoc show ?thesis by (intro exI [of _ c']) auto
  qed
qed

section \<open>Runs from a first entry into START\<close>

lemma fresh_start_inv: "fresh_start c \<Longrightarrow> machine_inv c"
  by (simp add: fresh_start_def machine_inv_def resting_ok_def)

lemma fresh_start_pending:
  "fresh_start c \<Longrightarrow> pending mem c = frames mem (cmds_to_issue (conn c))"
  by (simp add: fresh_start_def pending_def resting_pending_def)

lemma ready_drained:
  assumes "machine_inv c" and "state c = STATE_READY" and "cmds_to_issue (conn c) = []"
  shows "pending mem c = []"
proof -
  from assms have "wlen (conn c) = 0"
    using phase_nonempty(1,2) [of "conn c"]
    by (auto simp add: machine_inv_def resting_ok_def split: if_splits)
  with assms show ?thesis by (simp add: pending_def resting_pending_def frames_Nil)
qed

lemma run_stream:
  assumes "fresh_start c"
  shows "\<exists>c'. run mem es c = Inr c' \<and> machine_inv c' \<and>
     (\<exists>rest. sock_sent (conn c') @ rest =
        sock_sent (conn c) @ frames mem (cmds_to_issue (conn c) @ enqueued es)) \<and>
     (state c' = STATE_READY \<and> cmds_to_issue (conn c') = [] \<longrightarrow>
        sock_sent (conn c') =
        sock_sent (conn c) @ frames mem (cmds_to_issue (conn c) @ enqueued es))"
proof -
  from run_advances [OF fresh_start_inv [OF assms], of mem es]
  obtain c' rest where r: "run mem es c = Inr c'" and i: "machine_inv c'"
    and eq: "state c' \<noteq> STATE_DEAD \<longrightarrow>
        sock_sent (conn c') @ pending mem c' =
        sock_sent (conn c) @ pending mem c @ frames mem (enqueued es)"
    and pre: "sock_sent (conn c') @ rest =
        sock_sent (conn c) @ pending mem c @ frames mem (enqueued es)"
    by blast
  have p: "pending mem c @ frames mem (enqueued es) =
      frames mem (cmds_to_issue (conn c) @ enqueued es)"
    by (simp add: fresh_start_pending [OF assms] frames_append)
  have "sock_sent (conn c') =
        sock_sent (conn c) @ frames mem (cmds_to_issue (conn c) @ enqueued es)"
    if "state c' = STATE_READY" and "cmds_to_issue (conn c') = []"
    using eq that ready_drained [OF i that, of mem] p by simp
  moreover have "sock_sent (conn c') @ rest =
      sock_sent (conn c) @ frames mem (cmds_to_issue (conn c) @ enqueued es)"
    using pre p by simp
  ultimately show ?thesis using r i by blast
qed

lemma inv_assertions: "machine_inv c \<Longrightarrow> assertions_hold c"
  by (cases "state c")
    (auto simp add: machine_inv_def assertions_hold_def resting_ok_def hdr_phase_def
      pay_phase_def hdr_sent_def hdr_of_handle split: list.splits)

lemma START_fresh:
  assumes "wlen h = 0" and "cmds_to_issue h = cmd # nxt"
  shows "ISSUE_COMMAND_START h =
     Inr (0, Some STATE_ISSUE_COMMAND_SEND_REQUEST,
       h\<lparr>request := hdr_of cmd, wbuf := Request_ptr 0, wlen := sizeof_request,
         wflags := (if command_in_flight.type cmd = NBD_CMD_WRITE \<or> nxt \<noteq> []
                    then MSG_MORE else wflags h)\<rparr>)"
  using assms by (simp add: ISSUE_COMMAND_START_def hdr_of_def)

lemmas example_defs =
  example_write_def example_read_def example_zeroes_def example_huge_def
  example_flagged_def example_mem_def
  idle_handle_def start_config_def paused_handle_def sent_handle_def
  header_schedule_def write_schedule_def read_schedule_def example_schedule_def

lemmas machine_defs =
  ISSUE_COMMAND_START_def ISSUE_COMMAND_SEND_REQUEST_def
  ISSUE_COMMAND_PAUSE_SEND_REQUEST_def ISSUE_COMMAND_PREPARE_WRITE_PAYLOAD_def
  ISSUE_COMMAND_SEND_WRITE_PAYLOAD_def ISSUE_COMMAND_PAUSE_WRITE_PAYLOAD_def
  ISSUE_COMMAND_FINISH_def after_handler_def send_from_wbuf_def Let_def
  request_bytes_def wire_header_def hdr_of_def
  htobe16_def htobe32_def htobe64_def be64toh_def be32toh_def
  NBD_CMD_WRITE_def NBD_CMD_READ_def NBD_CMD_WRITE_ZEROES_def NBD_REQUEST_MAGIC_def
  MSG_MORE_def sizeof_request_def

lemma example_run:
  "run example_mem example_schedule (start_config [example_write]) =
   Inr \<lparr>state = STATE_READY, blocked = False,
     conn = \<lparr>cmds_to_issue = [], cmds_in_flight = [example_read, example_write],
       request = hdr_of example_read, wbuf = Request_ptr 28, wlen = 0, wflags = 0,
       in_write_payload = False,
       sock_sent =
         [0x25, 0x60, 0x95, 0x13, 0, 0, 0, 1, 0, 0, 0, 0, 0, 0, 0, 1,
          0, 0, 0, 0, 0, 0, 0x10, 0, 0, 0, 0, 8,
          0x11, 0x22, 0x33, 0x44, 0x55, 0x66, 0x77, 0x88,
          0x25, 0x60, 0x95, 0x13, 0, 0, 0, 0, 0, 0, 0, 0, 0, 0, 0, 2,
          0, 0, 0, 0, 0, 0, 0, 0, 0, 0, 2, 0]\<rparr>\<rparr>"
  by (simp add: example_defs machine_defs)


lemma write_run:
  "run example_mem write_schedule (start_config [example_write]) =
   Inr \<lparr>state = STATE_ISSUE_COMMAND_FINISH, blocked = False,
     conn = \<lparr>cmds_to_issue = [example_write], cmds_in_flight = [],
       request = hdr_of example_write, wbuf = Data_ptr 1 8, wlen = 0, wflags = 0,
       in_write_payload = False,
       sock_sent = wire_header example_write @ example_mem 1\<rparr>\<rparr>"
  by (simp add: example_defs machine_defs)

lemma pause_run:
  "run example_mem (take 3 header_schedule) (start_config [example_write]) =
   Inr \<lparr>state = STATE_ISSUE_COMMAND_PAUSE_SEND_REQUEST, blocked = False,
     conn = paused_handle\<rparr>"
  by (simp add: example_defs machine_defs)

section \<open>Big-endian values\<close>

lemma be_value_snoc: "be_value (bs @ [b]) = be_value bs * 256 + unat b"
  by (simp add: be_value_def)

lemma be_value_be_bytes: "be_value (be_bytes n x) = unat x mod 256 ^ n"
proof (induction n arbitrary: x)
  case 0
  show ?case by (simp add: be_value_def)
next
  case (Suc n)
  have "unat (drop_bit 8 x) = drop_bit 8 (unat x)"
    by (rule unat_drop_bit_eq)
  then have d: "unat (drop_bit 8 x) = unat x div 256"
    by (simp only: drop_bit_eq_div) simp
  have u: "unat (ucast x :: byte) = unat x mod 256"
    by (simp add: unsigned_ucast_eq take_bit_eq_mod)
  have "unat x mod (256 * 256 ^ n) = 256 * (unat x div 256 mod 256 ^ n) + unat x mod 256"
    by (rule mod_mult2_eq)
  then show ?case
    by (simp add: be_value_snoc Suc.IH d u)
qed

lemma htobe16_be_bytes: "htobe16 x = be_bytes 2 x"
  by (simp add: htobe16_def eval_nat_numeral)

lemma be_value_htobe16: "be_value (htobe16 x) = unat x"
proof -
  have "unat x < 2 ^ 16" using unsigned_less [of x] by simp
  then show ?thesis by (simp add: htobe16_be_bytes be_value_be_bytes)
qed

lemma be_value_htobe32: "be_value (htobe32 x) = unat x"
proof -
  have "unat x < 2 ^ 32" using unsigned_less [of x] by simp
  then show ?thesis by (simp add: htobe32_be_bytes be_value_be_bytes)
qed

lemma be_value_htobe64: "be_value (htobe64 x) = unat x"
proof -
  have "unat x < 2 ^ 64" using unsigned_less [of x] by simp
  then show ?thesis by (simp add: htobe64_be_bytes be_value_be_bytes)
qed

lemma length_htobe:
  "length (htobe16 a) = 2" "length (htobe32 b) = 4" "length (htobe64 c) = 8"
  by (simp_all add: htobe16_def htobe32_def htobe64_def)

section \<open>Every run can be completed\<close>

lemma run_append:
  "run mem (es @ es') c =
   (case run mem es c of Inl x \<Rightarrow> Inl x | Inr c1 \<Rightarrow> run mem es' c1)"
  by (induction es arbitrary: c) (simp_all split: sum.splits)

lemma enqueued_append: "enqueued (es @ es') = enqueued es @ enqueued es'"
proof (induction es)
  case Nil
  show ?case by simp
next
  case (Cons e es)
  then show ?case using enqueued_Cons [of e "es @ es'"] enqueued_Cons [of e es] by simp
qed

lemma after_handler_rests:
  "after_handler c res = Inr c' \<Longrightarrow>
   (\<forall>r h'. res \<noteq> Inr (r, None, h')) \<Longrightarrow> \<not> blocked c'"
  by (auto simp add: after_handler_def split: sum.splits option.splits)

lemma after_handler_send_rests:
  "after_handler c res = Inr c' \<Longrightarrow> blocked c' \<Longrightarrow> state c' = state c"
  by (auto simp add: after_handler_def split: sum.splits option.splits)

lemma handlers_name_a_state:
  "ISSUE_COMMAND_START h \<noteq> Inr (r, None, h')"
  "ISSUE_COMMAND_PAUSE_SEND_REQUEST h \<noteq> Inr (r, None, h')"
  "ISSUE_COMMAND_PREPARE_WRITE_PAYLOAD h \<noteq> Inr (r, None, h')"
  "ISSUE_COMMAND_PAUSE_WRITE_PAYLOAD h \<noteq> Inr (r, None, h')"
  "ISSUE_COMMAND_FINISH h \<noteq> Inr (r, None, h')"
  by (simp_all add: ISSUE_COMMAND_START_def ISSUE_COMMAND_PAUSE_SEND_REQUEST_def
      ISSUE_COMMAND_PREPARE_WRITE_PAYLOAD_def ISSUE_COMMAND_PAUSE_WRITE_PAYLOAD_def
      ISSUE_COMMAND_FINISH_def split: list.splits)

lemma enter_state_rests:
  assumes "rests_in_send c" and "\<not> blocked c" and "enter_state mem sr (state c) c = Inr c'"
  shows "rests_in_send c'"
proof (cases "state c")
  case STATE_READY
  with assms show ?thesis by (auto simp add: rests_in_send_def split: if_splits)
next
  case STATE_DEAD
  with assms show ?thesis by (auto simp add: rests_in_send_def)
next
  case STATE_REPLY_START
  with assms show ?thesis by (auto simp add: rests_in_send_def)
next
  case STATE_ISSUE_COMMAND_START
  with assms show ?thesis
    using after_handler_rests [of c "ISSUE_COMMAND_START (conn c)" c']
    by (simp add: rests_in_send_def handlers_name_a_state)
next
  case STATE_ISSUE_COMMAND_SEND_REQUEST
  with assms show ?thesis
    using after_handler_send_rests [of c "ISSUE_COMMAND_SEND_REQUEST mem sr (conn c)" c']
    by (auto simp add: rests_in_send_def)
next
  case STATE_ISSUE_COMMAND_PAUSE_SEND_REQUEST
  with assms show ?thesis
    using after_handler_rests [of c "ISSUE_COMMAND_PAUSE_SEND_REQUEST (conn c)" c']
    by (simp add: rests_in_send_def handlers_name_a_state)
next
  case STATE_ISSUE_COMMAND_PREPARE_WRITE_PAYLOAD
  with assms show ?thesis
    using after_handler_rests [of c "ISSUE_COMMAND_PREPARE_WRITE_PAYLOAD (conn c)" c']
    by (simp add: rests_in_send_def handlers_name_a_state)
next
  case STATE_ISSUE_COMMAND_SEND_WRITE_PAYLOAD
  with assms show ?thesis
    using after_handler_send_rests
      [of c "ISSUE_COMMAND_SEND_WRITE_PAYLOAD mem sr (conn c)" c']
    by (auto simp add: rests_in_send_def)
next
  case STATE_ISSUE_COMMAND_PAUSE_WRITE_PAYLOAD
  with assms show ?thesis
    using after_handler_rests [of c "ISSUE_COMMAND_PAUSE_WRITE_PAYLOAD (conn c)" c']
    by (simp add: rests_in_send_def handlers_name_a_state)
next
  case STATE_ISSUE_COMMAND_FINISH
  with assms show ?thesis
    using after_handler_rests [of c "ISSUE_COMMAND_FINISH (conn c)" c']
    by (simp add: rests_in_send_def handlers_name_a_state)
qed

lemma step_rests:
  assumes "rests_in_send c" and "step mem e c = Inr c'"
  shows "rests_in_send c'"
proof (cases e)
  case (Run sr)
  with assms show ?thesis
    using enter_state_rests [of c mem sr c'] by (cases "blocked c") auto
next
  case Notify_write
  with assms show ?thesis by (auto simp add: rests_in_send_def split: if_splits)
next
  case Notify_read
  with assms show ?thesis by (auto simp add: rests_in_send_def split: if_splits)
next
  case (Reply_done fl)
  with assms show ?thesis by (auto simp add: rests_in_send_def split: if_splits)
next
  case (Enqueue cmd)
  with assms show ?thesis by (auto simp add: rests_in_send_def split: if_splits)
qed

lemma step_good:
  assumes "machine_inv c" and "rests_in_send c"
  obtains c1 where "step mem e c = Inr c1" and "machine_inv c1" and "rests_in_send c1"
proof -
  from step_advances [OF assms(1), of mem e] obtain c1 where s: "step mem e c = Inr c1"
    and "machine_inv c1" by (auto simp add: advances_def)
  moreover from assms(2) s have "rests_in_send c1" by (rule step_rests)
  ultimately show ?thesis using that by blast
qed

lemma run_good:
  "machine_inv c \<Longrightarrow> rests_in_send c \<Longrightarrow>
   \<exists>c'. run mem es c = Inr c' \<and> machine_inv c' \<and> rests_in_send c'"
proof (induction es arbitrary: c)
  case Nil
  then show ?case by simp
next
  case (Cons e es)
  from step_good [OF Cons.prems, of mem e] obtain c1 where "step mem e c = Inr c1"
    and "machine_inv c1" and "rests_in_send c1" by blast
  with Cons.IH [of c1] show ?case by simp
qed

lemma completes_step:
  assumes "step mem e c = Inr c1" and "completes mem c1" and "enqueued [e] = []"
  shows "completes mem c"
proof -
  from assms(2) obtain es c' where "enqueued es = []" and "run mem es c1 = Inr c'"
    and "state c' = STATE_READY" and "cmds_to_issue (conn c') = []"
    by (auto simp add: completes_def)
  with assms(1,3) have "enqueued (e # es) = [] \<and> run mem (e # es) c = Inr c' \<and>
      state c' = STATE_READY \<and> cmds_to_issue (conn c') = []"
    using enqueued_Cons [of e es] by simp
  then show ?thesis unfolding completes_def by blast
qed

lemma send_plenty: "fst (send_from_wbuf mem plenty h) = 0"
proof (cases "wlen h = 0")
  case True
  then show ?thesis by (simp add: send_from_wbuf_def)
next
  case False
  have "unat (wlen h) < 2 ^ 64" using unsigned_less [of "wlen h"] by simp
  then have "unat (wlen h) \<le> 2 ^ 64" by simp
  with False show ?thesis
    using send_from_wbuf_room [of h "2 ^ 64" mem] by (simp add: plenty_def)
qed
lemma run_send_request_plenty:
  assumes "state c = STATE_ISSUE_COMMAND_SEND_REQUEST" and "\<not> blocked c"
  shows "step mem (Run plenty) c =
     Inr \<lparr>state = STATE_ISSUE_COMMAND_PREPARE_WRITE_PAYLOAD, blocked = False,
       conn = snd (send_from_wbuf mem plenty (conn c))\<rparr>"
  using assms send_plenty [of mem "conn c"]
  by (simp add: ISSUE_COMMAND_SEND_REQUEST_def after_handler_def split_beta)

lemma run_send_write_payload_plenty:
  assumes "state c = STATE_ISSUE_COMMAND_SEND_WRITE_PAYLOAD" and "\<not> blocked c"
  shows "step mem (Run plenty) c =
     Inr \<lparr>state = STATE_ISSUE_COMMAND_FINISH, blocked = False,
       conn = snd (send_from_wbuf mem plenty (conn c))\<rparr>"
  using assms send_plenty [of mem "conn c"]
  by (simp add: ISSUE_COMMAND_SEND_WRITE_PAYLOAD_def after_handler_def split_beta)

text \<open>One step with a named event, with the state and the queue it leads to.\<close>

lemma track:
  assumes "machine_inv c" and "rests_in_send c"
    and "\<And>c1. step mem e c = Inr c1 \<Longrightarrow> P c1"
  obtains c1 where "step mem e c = Inr c1" and "machine_inv c1" and "rests_in_send c1"
    and "P c1"
  using step_good [OF assms(1,2), of mem e] assms(3) by blast

lemma progress:
  "machine_inv c \<Longrightarrow> rests_in_send c \<Longrightarrow> state c \<noteq> STATE_DEAD \<Longrightarrow> completes mem c"
proof (induction "length (cmds_to_issue (conn c))" arbitrary: c)
  case 0
  then have q: "cmds_to_issue (conn c) = []" by simp
  have ready: "completes mem d" if "state d = STATE_READY" "cmds_to_issue (conn d) = []"
    for d
  proof -
    have "enqueued [] = [] \<and> run mem [] d = Inr d \<and> state d = STATE_READY \<and>
        cmds_to_issue (conn d) = []"
      using that by simp
    then show ?thesis unfolding completes_def by blast
  qed
  from "0.prems" q consider "state c = STATE_READY" | "state c = STATE_REPLY_START"
    using phase_nonempty [of "conn c"]
    by (cases "state c") (auto simp add: machine_inv_def)
  then show ?case
  proof cases
    case 1
    with q show ?thesis using ready by blast
  next
    case 2
    let ?e = "Reply_done (cmds_in_flight (conn c))"
    from 2 q have "\<exists>c1. step mem ?e c = Inr c1 \<and> state c1 = STATE_READY \<and>
        cmds_to_issue (conn c1) = []"
      by simp
    then obtain c1 where s: "step mem ?e c = Inr c1" and "state c1 = STATE_READY"
      and "cmds_to_issue (conn c1) = []" by blast
    then have "completes mem c1" using ready by blast
    with s show ?thesis by (rule completes_step [where e = ?e]) simp
  qed
next
  case (Suc m)
  note len = Suc.hyps(2) [symmetric]
  have unb: "\<not> blocked d"
    if "rests_in_send d" "state d \<noteq> STATE_ISSUE_COMMAND_SEND_REQUEST"
      "state d \<noteq> STATE_ISSUE_COMMAND_SEND_WRITE_PAYLOAD" for d
    using that by (auto simp add: rests_in_send_def)
  have fin: "completes mem d"
    if g: "machine_inv d" "rests_in_send d" and st: "state d = STATE_ISSUE_COMMAND_FINISH"
      and l: "length (cmds_to_issue (conn d)) = Suc m" for d
  proof -
    from g st have nb: "\<not> blocked d" using unb by simp
    have "state c1 = STATE_READY \<and> length (cmds_to_issue (conn c1)) = m"
      if "step mem (Run plenty) d = Inr c1" for c1
      using that st nb l
      by (auto simp add: ISSUE_COMMAND_FINISH_def after_handler_def
          split: if_splits list.splits)
    with g obtain c1 where s: "step mem (Run plenty) d = Inr c1"
      and g1: "machine_inv c1" "rests_in_send c1"
      and t: "state c1 = STATE_READY \<and> length (cmds_to_issue (conn c1)) = m"
      by (rule track)
    from t g1 have "completes mem c1" using Suc.hyps(1) [of c1] by simp
    with s show ?thesis by (rule completes_step) simp
  qed
  have unblock: "completes mem d"
    if g: "machine_inv d" "rests_in_send d" and b: "blocked d"
      and r: "\<And>d'. machine_inv d' \<Longrightarrow> rests_in_send d' \<Longrightarrow> \<not> blocked d' \<Longrightarrow>
        state d' = state d \<Longrightarrow> conn d' = conn d \<Longrightarrow> completes mem d'" for d
  proof -
    from g(2) b have ss: "state d = STATE_ISSUE_COMMAND_SEND_REQUEST \<or>
        state d = STATE_ISSUE_COMMAND_SEND_WRITE_PAYLOAD"
      by (simp add: rests_in_send_def)
    have "\<not> blocked c1 \<and> state c1 = state d \<and> conn c1 = conn d"
      if "step mem Notify_write d = Inr c1" for c1
      using that b ss by auto
    with g obtain c1 where s: "step mem Notify_write d = Inr c1"
      and g1: "machine_inv c1" "rests_in_send c1"
      and t: "\<not> blocked c1 \<and> state c1 = state d \<and> conn c1 = conn d"
      by (rule track)
    from g1 t have "completes mem c1" using r by blast
    with s show ?thesis by (rule completes_step) simp
  qed
  have swp: "completes mem d"
    if g: "machine_inv d" "rests_in_send d"
      and st: "state d = STATE_ISSUE_COMMAND_SEND_WRITE_PAYLOAD"
      and l: "length (cmds_to_issue (conn d)) = Suc m" for d
  proof -
    have go: "completes mem d'"
      if g': "machine_inv d'" "rests_in_send d'" and nb: "\<not> blocked d'"
        and st': "state d' = STATE_ISSUE_COMMAND_SEND_WRITE_PAYLOAD"
        and l': "length (cmds_to_issue (conn d')) = Suc m" for d'
    proof -
      have "state c1 = STATE_ISSUE_COMMAND_FINISH \<and>
          length (cmds_to_issue (conn c1)) = Suc m"
        if "step mem (Run plenty) d' = Inr c1" for c1
        using that run_send_write_payload_plenty [OF st' nb, of mem] l'
        by (auto simp add: send_unchanged)
      with g' obtain c1 where s: "step mem (Run plenty) d' = Inr c1"
        and g1: "machine_inv c1" "rests_in_send c1"
        and t: "state c1 = STATE_ISSUE_COMMAND_FINISH \<and>
          length (cmds_to_issue (conn c1)) = Suc m"
        by (rule track)
      from g1 t have "completes mem c1" using fin by blast
      with s show ?thesis by (rule completes_step) simp
    qed
    show ?thesis
    proof (cases "blocked d")
      case True
      with g show ?thesis using go st l by (intro unblock [of d]) auto
    next
      case False
      with g st l show ?thesis by (intro go)
    qed
  qed
  have prep: "completes mem d"
    if g: "machine_inv d" "rests_in_send d"
      and st: "state d = STATE_ISSUE_COMMAND_PREPARE_WRITE_PAYLOAD"
      and l: "length (cmds_to_issue (conn d)) = Suc m" for d
  proof -
    from g st have nb: "\<not> blocked d" using unb by simp
    have "(state c1 = STATE_ISSUE_COMMAND_SEND_WRITE_PAYLOAD \<or>
           state c1 = STATE_ISSUE_COMMAND_FINISH) \<and>
          length (cmds_to_issue (conn c1)) = Suc m"
      if "step mem (Run plenty) d = Inr c1" for c1
      using that st nb l
      by (auto simp add: ISSUE_COMMAND_PREPARE_WRITE_PAYLOAD_def after_handler_def
          split: if_splits list.splits)
    with g obtain c1 where s: "step mem (Run plenty) d = Inr c1"
      and g1: "machine_inv c1" "rests_in_send c1"
      and t: "(state c1 = STATE_ISSUE_COMMAND_SEND_WRITE_PAYLOAD \<or>
           state c1 = STATE_ISSUE_COMMAND_FINISH) \<and>
          length (cmds_to_issue (conn c1)) = Suc m"
      by (rule track)
    from g1 t have "completes mem c1" using fin swp by blast
    with s show ?thesis by (rule completes_step) simp
  qed
  have sreq: "completes mem d"
    if g: "machine_inv d" "rests_in_send d"
      and st: "state d = STATE_ISSUE_COMMAND_SEND_REQUEST"
      and l: "length (cmds_to_issue (conn d)) = Suc m" for d
  proof -
    have go: "completes mem d'"
      if g': "machine_inv d'" "rests_in_send d'" and nb: "\<not> blocked d'"
        and st': "state d' = STATE_ISSUE_COMMAND_SEND_REQUEST"
        and l': "length (cmds_to_issue (conn d')) = Suc m" for d'
    proof -
      have "state c1 = STATE_ISSUE_COMMAND_PREPARE_WRITE_PAYLOAD \<and>
          length (cmds_to_issue (conn c1)) = Suc m"
        if "step mem (Run plenty) d' = Inr c1" for c1
        using that run_send_request_plenty [OF st' nb, of mem] l'
        by (auto simp add: send_unchanged)
      with g' obtain c1 where s: "step mem (Run plenty) d' = Inr c1"
        and g1: "machine_inv c1" "rests_in_send c1"
        and t: "state c1 = STATE_ISSUE_COMMAND_PREPARE_WRITE_PAYLOAD \<and>
          length (cmds_to_issue (conn c1)) = Suc m"
        by (rule track)
      from g1 t have "completes mem c1" using prep by blast
      with s show ?thesis by (rule completes_step) simp
    qed
    show ?thesis
    proof (cases "blocked d")
      case True
      with g show ?thesis using go st l by (intro unblock [of d]) auto
    next
      case False
      with g st l show ?thesis by (intro go)
    qed
  qed
  have start: "completes mem d"
    if g: "machine_inv d" "rests_in_send d"
      and st: "state d = STATE_ISSUE_COMMAND_START"
      and l: "length (cmds_to_issue (conn d)) = Suc m" for d
  proof -
    from g st have nb: "\<not> blocked d" using unb by simp
    have "(state c1 = STATE_ISSUE_COMMAND_SEND_REQUEST \<or>
           state c1 = STATE_ISSUE_COMMAND_SEND_WRITE_PAYLOAD) \<and>
          length (cmds_to_issue (conn c1)) = Suc m"
      if "step mem (Run plenty) d = Inr c1" for c1
      using that st nb l
      by (auto simp add: ISSUE_COMMAND_START_def after_handler_def
          split: if_splits list.splits)
    with g obtain c1 where s: "step mem (Run plenty) d = Inr c1"
      and g1: "machine_inv c1" "rests_in_send c1"
      and t: "(state c1 = STATE_ISSUE_COMMAND_SEND_REQUEST \<or>
           state c1 = STATE_ISSUE_COMMAND_SEND_WRITE_PAYLOAD) \<and>
          length (cmds_to_issue (conn c1)) = Suc m"
      by (rule track)
    from g1 t have "completes mem c1" using sreq swp by blast
    with s show ?thesis by (rule completes_step) simp
  qed
  have ready: "completes mem d"
    if g: "machine_inv d" "rests_in_send d" and st: "state d = STATE_READY"
      and l: "length (cmds_to_issue (conn d)) = Suc m" for d
  proof -
    from g st have nb: "\<not> blocked d" using unb by simp
    from l have ne: "cmds_to_issue (conn d) \<noteq> []" by auto
    have "state c1 = STATE_ISSUE_COMMAND_START \<and>
          length (cmds_to_issue (conn c1)) = Suc m"
      if "step mem (Run plenty) d = Inr c1" for c1
      using that st nb l ne by auto
    with g obtain c1 where s: "step mem (Run plenty) d = Inr c1"
      and g1: "machine_inv c1" "rests_in_send c1"
      and t: "state c1 = STATE_ISSUE_COMMAND_START \<and>
          length (cmds_to_issue (conn c1)) = Suc m"
      by (rule track)
    from g1 t have "completes mem c1" using start by blast
    with s show ?thesis by (rule completes_step) simp
  qed
  have reply: "completes mem d"
    if g: "machine_inv d" "rests_in_send d" and st: "state d = STATE_REPLY_START"
      and l: "length (cmds_to_issue (conn d)) = Suc m" for d
  proof -
    let ?e = "Reply_done (cmds_in_flight (conn d))"
    have "state c1 = STATE_READY \<and> length (cmds_to_issue (conn c1)) = Suc m"
      if "step mem ?e d = Inr c1" for c1
      using that st l by auto
    with g obtain c1 where s: "step mem ?e d = Inr c1"
      and g1: "machine_inv c1" "rests_in_send c1"
      and t: "state c1 = STATE_READY \<and> length (cmds_to_issue (conn c1)) = Suc m"
      by (rule track)
    from g1 t have "completes mem c1" using ready by blast
    with s show ?thesis by (rule completes_step [where e = ?e]) simp
  qed
  have pause: "completes mem d"
    if g: "machine_inv d" "rests_in_send d"
      and st: "state d = STATE_ISSUE_COMMAND_PAUSE_SEND_REQUEST \<or>
        state d = STATE_ISSUE_COMMAND_PAUSE_WRITE_PAYLOAD"
      and l: "length (cmds_to_issue (conn d)) = Suc m" for d
  proof -
    from g st have nb: "\<not> blocked d" using unb by auto
    have "state c1 = STATE_REPLY_START \<and> length (cmds_to_issue (conn c1)) = Suc m"
      if "step mem (Run plenty) d = Inr c1" for c1
      using that st nb l
      by (auto simp add: ISSUE_COMMAND_PAUSE_SEND_REQUEST_def
          ISSUE_COMMAND_PAUSE_WRITE_PAYLOAD_def after_handler_def split: if_splits)
    with g obtain c1 where s: "step mem (Run plenty) d = Inr c1"
      and g1: "machine_inv c1" "rests_in_send c1"
      and t: "state c1 = STATE_REPLY_START \<and> length (cmds_to_issue (conn c1)) = Suc m"
      by (rule track)
    from g1 t have "completes mem c1" using reply by blast
    with s show ?thesis by (rule completes_step) simp
  qed
  from Suc.prems len show ?case
    using fin swp prep sreq start ready reply pause by (cases "state c") auto
qed
lemma fresh_start_rests: "fresh_start c \<Longrightarrow> rests_in_send c"
  by (simp add: fresh_start_def rests_in_send_def)

lemma run_completes:
  assumes "fresh_start c" and "run mem es c = Inr c1" and "state c1 \<noteq> STATE_DEAD"
  shows "\<exists>es' c'. enqueued es' = [] \<and> run mem (es @ es') c = Inr c' \<and>
     state c' = STATE_READY \<and> cmds_to_issue (conn c') = [] \<and>
     sock_sent (conn c') =
       sock_sent (conn c) @ frames mem (cmds_to_issue (conn c) @ enqueued es)"
proof -
  from run_good [OF fresh_start_inv [OF assms(1)] fresh_start_rests [OF assms(1)], of mem es]
    assms(2)
  have "machine_inv c1" and "rests_in_send c1" by auto
  from progress [OF this assms(3), of mem] obtain es' c' where e: "enqueued es' = []"
    and r: "run mem es' c1 = Inr c'" and st: "state c' = STATE_READY"
    and q: "cmds_to_issue (conn c') = []"
    by (auto simp add: completes_def)
  from assms(2) r have r': "run mem (es @ es') c = Inr c'"
    by (simp add: run_append)
  from run_stream [OF assms(1), of mem "es @ es'"] r' st q e
  have "sock_sent (conn c') =
       sock_sent (conn c) @ frames mem (cmds_to_issue (conn c) @ enqueued es)"
    by (auto simp add: enqueued_append)
  with e r' st q show ?thesis by blast
qed

lemma wire_header_fields:
  "\<exists>m f t hd off cnt.
     wire_header cmd = m @ f @ t @ hd @ off @ cnt \<and>
     length m = 4 \<and> be_value m = 0x25609513 \<and>
     length f = 2 \<and> be_value f = unat (command_in_flight.flags cmd) \<and>
     length t = 2 \<and> be_value t = unat (command_in_flight.type cmd) \<and>
     length hd = 8 \<and> be_value hd = unat (command_in_flight.handle cmd) \<and>
     length off = 8 \<and> be_value off = unat (command_in_flight.offset cmd) \<and>
     length cnt = 4 \<and> be_value cnt = unat (command_in_flight.count cmd) mod 2 ^ 32"
proof -
  have c: "unat (ucast (command_in_flight.count cmd) :: 32 word) =
      unat (command_in_flight.count cmd) mod 2 ^ 32"
    by (simp add: unsigned_ucast_eq take_bit_eq_mod)
  show ?thesis
    apply (rule exI [of _ "htobe32 NBD_REQUEST_MAGIC"])
    apply (rule exI [of _ "htobe16 (command_in_flight.flags cmd)"])
    apply (rule exI [of _ "htobe16 (command_in_flight.type cmd)"])
    apply (rule exI [of _ "htobe64 (command_in_flight.handle cmd)"])
    apply (rule exI [of _ "htobe64 (command_in_flight.offset cmd)"])
    apply (rule exI [of _ "htobe32 (ucast (command_in_flight.count cmd))"])
    apply (simp add: wire_header_def length_htobe be_value_htobe16 be_value_htobe32
        be_value_htobe64 c NBD_REQUEST_MAGIC_def)
    done
qed

section \<open>The claims\<close>

text \<open>
  Claim C1. With no partial write pending, \<^verbatim>\<open>START\<close> fills the request header with the
  big-endian encodings of the magic and of the head command's flags, type, handle,
  offset and count, and points the write cursor at the 28 bytes of that header. The
  header is 4, 2, 2, 8, 8 and 4 bytes in that order, each field denoting its value with
  the most significant byte first. Over a whole run, whatever the socket accepts and
  whenever the reply path interrupts, the bytes sent are a prefix of the frames of the
  commands in enqueue order, and all of them once the queue is drained; and every run
  that has not died can be continued until the queue is drained, so all the frames do
  get sent. A frame is the 28-byte header followed, for a write, by \<^verbatim>\<open>count\<close> bytes of
  payload.
\<close>

theorem start_fills_header_and_stream_is_framed:
  "(wlen h = 0 \<and> cmds_to_issue h = cmd # nxt \<longrightarrow>
      (\<exists>h'. ISSUE_COMMAND_START h = Inr (0, Some STATE_ISSUE_COMMAND_SEND_REQUEST, h') \<and>
         nbd_request.magic (request h') = htobe32 NBD_REQUEST_MAGIC \<and>
         nbd_request.flags (request h') = htobe16 (command_in_flight.flags cmd) \<and>
         nbd_request.type (request h') = htobe16 (command_in_flight.type cmd) \<and>
         nbd_request.handle (request h') = htobe64 (command_in_flight.handle cmd) \<and>
         nbd_request.offset (request h') = htobe64 (command_in_flight.offset cmd) \<and>
         nbd_request.count (request h') = htobe32 (ucast (command_in_flight.count cmd)) \<and>
         length (nbd_request.magic (request h')) = 4 \<and>
         be_value (nbd_request.magic (request h')) = 0x25609513 \<and>
         length (nbd_request.flags (request h')) = 2 \<and>
         be_value (nbd_request.flags (request h')) = unat (command_in_flight.flags cmd) \<and>
         length (nbd_request.type (request h')) = 2 \<and>
         be_value (nbd_request.type (request h')) = unat (command_in_flight.type cmd) \<and>
         length (nbd_request.handle (request h')) = 8 \<and>
         be_value (nbd_request.handle (request h')) = unat (command_in_flight.handle cmd) \<and>
         length (nbd_request.offset (request h')) = 8 \<and>
         be_value (nbd_request.offset (request h')) = unat (command_in_flight.offset cmd) \<and>
         length (nbd_request.count (request h')) = 4 \<and>
         be_value (nbd_request.count (request h')) =
           unat (command_in_flight.count cmd) mod 2 ^ 32 \<and>
         request_bytes (request h') =
           nbd_request.magic (request h') @ nbd_request.flags (request h') @
           nbd_request.type (request h') @ nbd_request.handle (request h') @
           nbd_request.offset (request h') @ nbd_request.count (request h') \<and>
         request_bytes (request h') = wire_header cmd \<and>
         wbuf h' = Request_ptr 0 \<and> wlen h' = 28 \<and>
         cmds_to_issue h' = cmds_to_issue h \<and> cmds_in_flight h' = cmds_in_flight h \<and>
         sock_sent h' = sock_sent h)) \<and>
   (fresh_start c \<longrightarrow>
      (\<exists>c'. run mem es c = Inr c' \<and>
         (\<exists>rest. sock_sent (conn c') @ rest =
            sock_sent (conn c) @ frames mem (cmds_to_issue (conn c) @ enqueued es)) \<and>
         (state c' = STATE_READY \<and> cmds_to_issue (conn c') = [] \<longrightarrow>
            sock_sent (conn c') =
            sock_sent (conn c) @ frames mem (cmds_to_issue (conn c) @ enqueued es)))) \<and>
   (fresh_start c \<and> run mem es c = Inr c1 \<and> state c1 \<noteq> STATE_DEAD \<longrightarrow>
      (\<exists>es' c'. enqueued es' = [] \<and> run mem (es @ es') c = Inr c' \<and>
         state c' = STATE_READY \<and> cmds_to_issue (conn c') = [] \<and>
         sock_sent (conn c') =
           sock_sent (conn c) @ frames mem (cmds_to_issue (conn c) @ enqueued es))) \<and>
   frames mem (cmd # nxt) =
     wire_header cmd @
     (if command_in_flight.type cmd = NBD_CMD_WRITE
      then take (unat (command_in_flight.count cmd)) (mem (data cmd)) else []) @
     frames mem nxt \<and>
   (\<exists>m f t hd off cnt.
      wire_header cmd = m @ f @ t @ hd @ off @ cnt \<and>
      length m = 4 \<and> be_value m = 0x25609513 \<and>
      length f = 2 \<and> be_value f = unat (command_in_flight.flags cmd) \<and>
      length t = 2 \<and> be_value t = unat (command_in_flight.type cmd) \<and>
      length hd = 8 \<and> be_value hd = unat (command_in_flight.handle cmd) \<and>
      length off = 8 \<and> be_value off = unat (command_in_flight.offset cmd) \<and>
      length cnt = 4 \<and> be_value cnt = unat (command_in_flight.count cmd) mod 2 ^ 32) \<and>
   length (wire_header cmd) = 28 \<and>
   (wf_cmd mem cmd \<longrightarrow>
      length (frame mem cmd) =
        28 + (if command_in_flight.type cmd = NBD_CMD_WRITE
              then unat (command_in_flight.count cmd) else 0))"
proof -
  have cnt: "unat (ucast (command_in_flight.count cmd) :: 32 word) =
      unat (command_in_flight.count cmd) mod 2 ^ 32"
    by (simp add: unsigned_ucast_eq take_bit_eq_mod)
  have a: "\<exists>h'. ISSUE_COMMAND_START h = Inr (0, Some STATE_ISSUE_COMMAND_SEND_REQUEST, h') \<and>
         nbd_request.magic (request h') = htobe32 NBD_REQUEST_MAGIC \<and>
         nbd_request.flags (request h') = htobe16 (command_in_flight.flags cmd) \<and>
         nbd_request.type (request h') = htobe16 (command_in_flight.type cmd) \<and>
         nbd_request.handle (request h') = htobe64 (command_in_flight.handle cmd) \<and>
         nbd_request.offset (request h') = htobe64 (command_in_flight.offset cmd) \<and>
         nbd_request.count (request h') = htobe32 (ucast (command_in_flight.count cmd)) \<and>
         length (nbd_request.magic (request h')) = 4 \<and>
         be_value (nbd_request.magic (request h')) = 0x25609513 \<and>
         length (nbd_request.flags (request h')) = 2 \<and>
         be_value (nbd_request.flags (request h')) = unat (command_in_flight.flags cmd) \<and>
         length (nbd_request.type (request h')) = 2 \<and>
         be_value (nbd_request.type (request h')) = unat (command_in_flight.type cmd) \<and>
         length (nbd_request.handle (request h')) = 8 \<and>
         be_value (nbd_request.handle (request h')) = unat (command_in_flight.handle cmd) \<and>
         length (nbd_request.offset (request h')) = 8 \<and>
         be_value (nbd_request.offset (request h')) = unat (command_in_flight.offset cmd) \<and>
         length (nbd_request.count (request h')) = 4 \<and>
         be_value (nbd_request.count (request h')) =
           unat (command_in_flight.count cmd) mod 2 ^ 32 \<and>
         request_bytes (request h') =
           nbd_request.magic (request h') @ nbd_request.flags (request h') @
           nbd_request.type (request h') @ nbd_request.handle (request h') @
           nbd_request.offset (request h') @ nbd_request.count (request h') \<and>
         request_bytes (request h') = wire_header cmd \<and>
         wbuf h' = Request_ptr 0 \<and> wlen h' = 28 \<and>
         cmds_to_issue h' = cmds_to_issue h \<and> cmds_in_flight h' = cmds_in_flight h \<and>
         sock_sent h' = sock_sent h"
    if "wlen h = 0" and "cmds_to_issue h = cmd # nxt"
    using START_fresh [OF that] cnt
    by (simp add: sizeof_request_def)
      (simp add: hdr_of_def request_bytes_def wire_header_def length_htobe
        be_value_htobe16 be_value_htobe32 be_value_htobe64 NBD_REQUEST_MAGIC_def)
  have b: "\<exists>c'. run mem es c = Inr c' \<and>
         (\<exists>rest. sock_sent (conn c') @ rest =
            sock_sent (conn c) @ frames mem (cmds_to_issue (conn c) @ enqueued es)) \<and>
         (state c' = STATE_READY \<and> cmds_to_issue (conn c') = [] \<longrightarrow>
            sock_sent (conn c') =
            sock_sent (conn c) @ frames mem (cmds_to_issue (conn c) @ enqueued es))"
    if "fresh_start c"
    using run_stream [OF that, of mem es] by blast
  have p: "\<exists>es' c'. enqueued es' = [] \<and> run mem (es @ es') c = Inr c' \<and>
         state c' = STATE_READY \<and> cmds_to_issue (conn c') = [] \<and>
         sock_sent (conn c') =
           sock_sent (conn c) @ frames mem (cmds_to_issue (conn c) @ enqueued es)"
    if "fresh_start c" and "run mem es c = Inr c1" and "state c1 \<noteq> STATE_DEAD"
    using that by (rule run_completes)
  have c: "frames mem (cmd # nxt) =
     wire_header cmd @
     (if command_in_flight.type cmd = NBD_CMD_WRITE
      then take (unat (command_in_flight.count cmd)) (mem (data cmd)) else []) @
     frames mem nxt"
    by (simp add: frames_Cons payload_def)
  have d: "length (frame mem cmd) =
        28 + (if command_in_flight.type cmd = NBD_CMD_WRITE
              then unat (command_in_flight.count cmd) else 0)"
    if "wf_cmd mem cmd"
    using that by (simp add: frame_def payload_def wf_cmd_def length_wire_header)
  show ?thesis
    apply (intro conjI impI)
    subgoal using a by blast
    subgoal using b by blast
    subgoal using p by blast
    subgoal by (rule c)
    subgoal by (rule wire_header_fields)
    subgoal by (rule length_wire_header)
    subgoal using d by blast
    done
qed

theorem start_fills_header_and_stream_is_framed_witness:
  "wlen (idle_handle [example_flagged]) = 0 \<and>
   cmds_to_issue (idle_handle [example_flagged]) = example_flagged # [] \<and>
   fresh_start (start_config [example_write]) \<and>
   wf_cmd example_mem example_write \<and>
   run example_mem (take 3 header_schedule) (start_config [example_write]) =
     Inr \<lparr>state = STATE_ISSUE_COMMAND_PAUSE_SEND_REQUEST, blocked = False,
       conn = paused_handle\<rparr> \<and>
   (\<exists>h'. ISSUE_COMMAND_START (idle_handle [example_flagged]) =
        Inr (0, Some STATE_ISSUE_COMMAND_SEND_REQUEST, h') \<and>
      request_bytes (request h') =
        [0x25, 0x60, 0x95, 0x13, 0xA1, 0xB2, 0, 6,
         0x01, 0x02, 0x03, 0x04, 0x05, 0x06, 0x07, 0x08,
         0x11, 0x12, 0x13, 0x14, 0x15, 0x16, 0x17, 0x18,
         0x21, 0x22, 0x23, 0x24] \<and>
      be_value (nbd_request.flags (request h')) = 0xA1B2 \<and>
      be_value (nbd_request.count (request h')) = 0x21222324) \<and>
   (\<exists>c'. run example_mem example_schedule (start_config [example_write]) = Inr c' \<and>
      state c' = STATE_READY \<and> cmds_to_issue (conn c') = [] \<and>
      sock_sent (conn c') = frames example_mem [example_write, example_read]) \<and>
   (\<exists>es' c'. enqueued es' = [] \<and>
      run example_mem (take 3 header_schedule @ es') (start_config [example_write]) =
        Inr c' \<and>
      state c' = STATE_READY \<and> cmds_to_issue (conn c') = [] \<and>
      sock_sent (conn c') = frames example_mem [example_write]) \<and>
   length (frame example_mem example_write) = 36"
proof -
  have h1: "wlen (idle_handle [example_flagged]) = 0"
    and h2: "cmds_to_issue (idle_handle [example_flagged]) = example_flagged # []"
    and h3: "fresh_start (start_config [example_write])"
    and h4: "wf_cmd example_mem example_write"
    by (simp_all add: example_defs fresh_start_def wf_cmd_def)
  have e: "enqueued example_schedule = [example_read]"
    "enqueued (take 3 header_schedule) = []"
    by (simp_all add: example_defs)
  have s: "sock_sent (conn (start_config [example_write])) = []"
    and q: "cmds_to_issue (conn (start_config [example_write])) = [example_write]"
    by (simp_all add: example_defs)
  have wh: "wire_header example_flagged =
        [0x25, 0x60, 0x95, 0x13, 0xA1, 0xB2, 0, 6,
         0x01, 0x02, 0x03, 0x04, 0x05, 0x06, 0x07, 0x08,
         0x11, 0x12, 0x13, 0x14, 0x15, 0x16, 0x17, 0x18,
         0x21, 0x22, 0x23, 0x24]"
    by (simp add: example_defs machine_defs)
  have v: "unat (command_in_flight.flags example_flagged) = 0xA1B2"
    "unat (command_in_flight.count example_flagged) mod 2 ^ 32 = 0x21222324"
    by (simp_all add: example_defs)
  have len: "(if command_in_flight.type example_write = NBD_CMD_WRITE
     then unat (command_in_flight.count example_write) else 0) = 8"
    by (simp add: example_defs)
  have nd: "state \<lparr>state = STATE_ISSUE_COMMAND_PAUSE_SEND_REQUEST, blocked = False,
       conn = paused_handle\<rparr> \<noteq> STATE_DEAD"
    by simp
  note t0 = start_fills_header_and_stream_is_framed
    [of "idle_handle [example_flagged]" example_flagged "[]" "start_config [example_write]"
      example_mem]
  note t1 = t0 [of example_schedule]
  note t2 = t0 [of "take 3 header_schedule"
      "\<lparr>state = STATE_ISSUE_COMMAND_PAUSE_SEND_REQUEST, blocked = False,
         conn = paused_handle\<rparr>"]
  note t3 = start_fills_header_and_stream_is_framed
    [of "idle_handle [example_write]" example_write "[]" "start_config [example_write]"
      example_mem example_schedule]
  from t1 h1 h2 have "\<exists>h'. ISSUE_COMMAND_START (idle_handle [example_flagged]) =
        Inr (0, Some STATE_ISSUE_COMMAND_SEND_REQUEST, h') \<and>
      request_bytes (request h') = wire_header example_flagged \<and>
      be_value (nbd_request.flags (request h')) =
        unat (command_in_flight.flags example_flagged) \<and>
      be_value (nbd_request.count (request h')) =
        unat (command_in_flight.count example_flagged) mod 2 ^ 32"
    by blast
  with wh v have hdr: "\<exists>h'. ISSUE_COMMAND_START (idle_handle [example_flagged]) =
        Inr (0, Some STATE_ISSUE_COMMAND_SEND_REQUEST, h') \<and>
      request_bytes (request h') =
        [0x25, 0x60, 0x95, 0x13, 0xA1, 0xB2, 0, 6,
         0x01, 0x02, 0x03, 0x04, 0x05, 0x06, 0x07, 0x08,
         0x11, 0x12, 0x13, 0x14, 0x15, 0x16, 0x17, 0x18,
         0x21, 0x22, 0x23, 0x24] \<and>
      be_value (nbd_request.flags (request h')) = 0xA1B2 \<and>
      be_value (nbd_request.count (request h')) = 0x21222324"
    by simp
  from t1 h3 obtain c' where
    r: "run example_mem example_schedule (start_config [example_write]) = Inr c'"
    and d: "state c' = STATE_READY \<and> cmds_to_issue (conn c') = [] \<longrightarrow>
      sock_sent (conn c') =
        sock_sent (conn (start_config [example_write])) @
        frames example_mem
          (cmds_to_issue (conn (start_config [example_write])) @ enqueued example_schedule)"
    by blast
  from r have st: "state c' = STATE_READY" "cmds_to_issue (conn c') = []"
    using example_run by auto
  with d have fin: "sock_sent (conn c') = frames example_mem [example_write, example_read]"
    by (simp add: e s q)
  from t2 h3 pause_run nd
  have "\<exists>es' c'. enqueued es' = [] \<and>
      run example_mem (take 3 header_schedule @ es') (start_config [example_write]) =
        Inr c' \<and>
      state c' = STATE_READY \<and> cmds_to_issue (conn c') = [] \<and>
      sock_sent (conn c') =
        sock_sent (conn (start_config [example_write])) @
        frames example_mem
          (cmds_to_issue (conn (start_config [example_write])) @
           enqueued (take 3 header_schedule))"
    by blast
  then have cont: "\<exists>es' c'. enqueued es' = [] \<and>
      run example_mem (take 3 header_schedule @ es') (start_config [example_write]) =
        Inr c' \<and>
      state c' = STATE_READY \<and> cmds_to_issue (conn c') = [] \<and>
      sock_sent (conn c') = frames example_mem [example_write]"
    by (simp add: e s q)
  from t3 h4 len have l: "length (frame example_mem example_write) = 36"
    by simp
  from h1 h2 h3 h4 pause_run hdr r st fin cont l show ?thesis by blast
qed

text \<open>
  Claim C2. When \<^verbatim>\<open>START\<close> is entered while a write is still partial (\<^verbatim>\<open>wlen > 0\<close>), it
  names \<^verbatim>\<open>SEND_WRITE_PAYLOAD\<close> if \<^verbatim>\<open>in_write_payload\<close> is set and \<^verbatim>\<open>SEND_REQUEST\<close>
  otherwise, and returns the handle as it was: header, \<^verbatim>\<open>wbuf\<close> and \<^verbatim>\<open>wlen\<close> included.
\<close>

theorem start_resumes_partial_write:
  "wlen h \<noteq> 0 \<Longrightarrow> cmds_to_issue h \<noteq> [] \<Longrightarrow>
   ISSUE_COMMAND_START h =
     Inr (0,
       Some (if in_write_payload h then STATE_ISSUE_COMMAND_SEND_WRITE_PAYLOAD
             else STATE_ISSUE_COMMAND_SEND_REQUEST),
       h)"
  by (cases "cmds_to_issue h") (simp_all add: ISSUE_COMMAND_START_def)

theorem start_resumes_partial_write_witness:
  "wlen paused_handle \<noteq> 0 \<and> cmds_to_issue paused_handle \<noteq> [] \<and>
   ISSUE_COMMAND_START paused_handle =
     Inr (0, Some STATE_ISSUE_COMMAND_SEND_REQUEST, paused_handle) \<and>
   ISSUE_COMMAND_START (paused_handle\<lparr>in_write_payload := True\<rparr>) =
     Inr (0, Some STATE_ISSUE_COMMAND_SEND_WRITE_PAYLOAD,
       paused_handle\<lparr>in_write_payload := True\<rparr>)"
proof -
  have h: "wlen paused_handle \<noteq> 0" "cmds_to_issue paused_handle \<noteq> []"
    "\<not> in_write_payload paused_handle"
    by (simp_all add: paused_handle_def)
  from h start_resumes_partial_write [of paused_handle]
    start_resumes_partial_write [of "paused_handle\<lparr>in_write_payload := True\<rparr>"]
  show ?thesis by simp
qed
text \<open>
  Claim C3, as amended. When the send primitive returns 1 in \<^verbatim>\<open>SEND_REQUEST\<close> or in
  \<^verbatim>\<open>SEND_WRITE_PAYLOAD\<close> (a short send or would-block, \<^verbatim>\<open>wlen\<close> still positive), the
  handler returns 0 and names no next state. The \<^verbatim>\<open>switch\<close> of each handler has the
  cases -1 and 0 only: \<^verbatim>\<open>SEND_REQUEST\<close> names \<^verbatim>\<open>DEAD\<close> on -1 and \<^verbatim>\<open>PREPARE_WRITE_PAYLOAD\<close>
  on 0, \<^verbatim>\<open>SEND_WRITE_PAYLOAD\<close> names \<^verbatim>\<open>DEAD\<close> on -1 and \<^verbatim>\<open>FINISH\<close> on 0, and neither
  names any other state, a \<^verbatim>\<open>PAUSE\<close> state in particular.
\<close>

theorem short_send_names_no_state:
  "(fst (send_from_wbuf mem sr h) = 1 \<longrightarrow>
      wlen (snd (send_from_wbuf mem sr h)) \<noteq> 0 \<and>
      ISSUE_COMMAND_SEND_REQUEST mem sr h = Inr (0, None, snd (send_from_wbuf mem sr h)) \<and>
      ISSUE_COMMAND_SEND_WRITE_PAYLOAD mem sr h =
        Inr (0, None, snd (send_from_wbuf mem sr h))) \<and>
   (ISSUE_COMMAND_SEND_REQUEST mem sr h = Inr (r, nxt, h') \<longrightarrow>
      h' = snd (send_from_wbuf mem sr h) \<and>
      (fst (send_from_wbuf mem sr h) = 1 \<and> r = 0 \<and> nxt = None \<or>
       fst (send_from_wbuf mem sr h) = 0 \<and> r = 0 \<and>
         nxt = Some STATE_ISSUE_COMMAND_PREPARE_WRITE_PAYLOAD \<or>
       fst (send_from_wbuf mem sr h) = - 1 \<and> r = - 1 \<and> nxt = Some STATE_DEAD)) \<and>
   (ISSUE_COMMAND_SEND_WRITE_PAYLOAD mem sr h = Inr (r, nxt, h') \<longrightarrow>
      h' = snd (send_from_wbuf mem sr h) \<and>
      (fst (send_from_wbuf mem sr h) = 1 \<and> r = 0 \<and> nxt = None \<or>
       fst (send_from_wbuf mem sr h) = 0 \<and> r = 0 \<and>
         nxt = Some STATE_ISSUE_COMMAND_FINISH \<or>
       fst (send_from_wbuf mem sr h) = - 1 \<and> r = - 1 \<and> nxt = Some STATE_DEAD)) \<and>
   ISSUE_COMMAND_SEND_REQUEST mem sr h \<noteq>
     Inr (r, Some STATE_ISSUE_COMMAND_PAUSE_SEND_REQUEST, h') \<and>
   ISSUE_COMMAND_SEND_REQUEST mem sr h \<noteq>
     Inr (r, Some STATE_ISSUE_COMMAND_PAUSE_WRITE_PAYLOAD, h') \<and>
   ISSUE_COMMAND_SEND_WRITE_PAYLOAD mem sr h \<noteq>
     Inr (r, Some STATE_ISSUE_COMMAND_PAUSE_SEND_REQUEST, h') \<and>
   ISSUE_COMMAND_SEND_WRITE_PAYLOAD mem sr h \<noteq>
     Inr (r, Some STATE_ISSUE_COMMAND_PAUSE_WRITE_PAYLOAD, h')"
proof -
  have w: "wlen (snd (send_from_wbuf mem sr h)) \<noteq> 0"
    if "fst (send_from_wbuf mem sr h) = 1"
    using that by (rule send_wlen)
  consider "fst (send_from_wbuf mem sr h) = - 1" | "fst (send_from_wbuf mem sr h) = 0"
    | "fst (send_from_wbuf mem sr h) = 1"
    using send_result [of mem sr h] by blast
  then show ?thesis
  proof cases
    case 1
    then show ?thesis
      by (auto simp add: ISSUE_COMMAND_SEND_REQUEST_def ISSUE_COMMAND_SEND_WRITE_PAYLOAD_def
          split_beta)
  next
    case 2
    then show ?thesis
      by (auto simp add: ISSUE_COMMAND_SEND_REQUEST_def ISSUE_COMMAND_SEND_WRITE_PAYLOAD_def
          split_beta)
  next
    case 3
    with w show ?thesis
      by (auto simp add: ISSUE_COMMAND_SEND_REQUEST_def ISSUE_COMMAND_SEND_WRITE_PAYLOAD_def
          split_beta)
  qed
qed

theorem short_send_names_no_state_witness:
  "fst (send_from_wbuf example_mem (Sock_room 10) paused_handle) = 1 \<and>
   wlen (snd (send_from_wbuf example_mem (Sock_room 10) paused_handle)) = 8 \<and>
   ISSUE_COMMAND_SEND_REQUEST example_mem (Sock_room 10) paused_handle =
     Inr (0, None, snd (send_from_wbuf example_mem (Sock_room 10) paused_handle)) \<and>
   ISSUE_COMMAND_SEND_WRITE_PAYLOAD example_mem (Sock_room 10) paused_handle =
     Inr (0, None, snd (send_from_wbuf example_mem (Sock_room 10) paused_handle)) \<and>
   ISSUE_COMMAND_SEND_REQUEST example_mem (Sock_room 18) paused_handle =
     Inr (0, Some STATE_ISSUE_COMMAND_PREPARE_WRITE_PAYLOAD,
       snd (send_from_wbuf example_mem (Sock_room 18) paused_handle)) \<and>
   fst (send_from_wbuf example_mem (Sock_room 18) paused_handle) = 0"
proof -
  have s: "fst (send_from_wbuf example_mem (Sock_room 10) paused_handle) = 1"
    and w: "wlen (snd (send_from_wbuf example_mem (Sock_room 10) paused_handle)) = 8"
    by (simp_all add: send_from_wbuf_def paused_handle_def Let_def)
  have r: "ISSUE_COMMAND_SEND_REQUEST example_mem (Sock_room 18) paused_handle =
     Inr (0, Some STATE_ISSUE_COMMAND_PREPARE_WRITE_PAYLOAD,
       snd (send_from_wbuf example_mem (Sock_room 18) paused_handle))"
    by (simp add: ISSUE_COMMAND_SEND_REQUEST_def send_from_wbuf_def paused_handle_def
        Let_def)
  from s short_send_names_no_state [of example_mem "Sock_room 10" paused_handle]
  have a: "ISSUE_COMMAND_SEND_REQUEST example_mem (Sock_room 10) paused_handle =
     Inr (0, None, snd (send_from_wbuf example_mem (Sock_room 10) paused_handle))"
    and b: "ISSUE_COMMAND_SEND_WRITE_PAYLOAD example_mem (Sock_room 10) paused_handle =
     Inr (0, None, snd (send_from_wbuf example_mem (Sock_room 10) paused_handle))"
    by blast+
  from r short_send_names_no_state
    [of example_mem "Sock_room 18" paused_handle 0
      "Some STATE_ISSUE_COMMAND_PREPARE_WRITE_PAYLOAD"
      "snd (send_from_wbuf example_mem (Sock_room 18) paused_handle)"]
  have c: "fst (send_from_wbuf example_mem (Sock_room 18) paused_handle) = 0"
    by auto
  from s w a b r c show ?thesis by blast
qed

text \<open>
  Claim C3 as stated fails: the socket would block with 18 header bytes left, and
  \<^verbatim>\<open>SEND_REQUEST\<close> names no state, \<^verbatim>\<open>PAUSE_SEND_REQUEST\<close> in particular; likewise
  \<^verbatim>\<open>SEND_WRITE_PAYLOAD\<close>.
\<close>

theorem short_send_pause_counterexample:
  "send_from_wbuf example_mem (Sock_room 0) paused_handle = (1, paused_handle) \<and>
   wlen paused_handle = 18 \<and>
   ISSUE_COMMAND_SEND_REQUEST example_mem (Sock_room 0) paused_handle =
     Inr (0, None, paused_handle) \<and>
   ISSUE_COMMAND_SEND_REQUEST example_mem (Sock_room 0) paused_handle \<noteq>
     Inr (0, Some STATE_ISSUE_COMMAND_PAUSE_SEND_REQUEST, paused_handle) \<and>
   ISSUE_COMMAND_SEND_WRITE_PAYLOAD example_mem (Sock_room 0) paused_handle =
     Inr (0, None, paused_handle) \<and>
   ISSUE_COMMAND_SEND_WRITE_PAYLOAD example_mem (Sock_room 0) paused_handle \<noteq>
     Inr (0, Some STATE_ISSUE_COMMAND_PAUSE_WRITE_PAYLOAD, paused_handle)"
  by (simp add: ISSUE_COMMAND_SEND_REQUEST_def ISSUE_COMMAND_SEND_WRITE_PAYLOAD_def
      send_from_wbuf_def paused_handle_def)

text \<open>
  Claim C4. \<^verbatim>\<open>FINISH\<close>, entered with \<^verbatim>\<open>wlen == 0\<close> and the head command's handle equal
  to the handle decoded from the request header, takes the head command off
  \<^verbatim>\<open>cmds_to_issue\<close>, puts it in front of \<^verbatim>\<open>cmds_in_flight\<close>, changes nothing else and
  names \<^verbatim>\<open>READY\<close>. In every run from a first entry into \<^verbatim>\<open>START\<close>, whenever the machine
  stands at \<^verbatim>\<open>FINISH\<close> these preconditions hold, so \<^verbatim>\<open>FINISH\<close> does exactly that.
\<close>

theorem finish_moves_head_to_in_flight:
  "(wlen h = 0 \<and> cmds_to_issue h = cmd # nxt \<and>
    command_in_flight.handle cmd = be64toh (nbd_request.handle (request h)) \<longrightarrow>
      ISSUE_COMMAND_FINISH h =
        Inr (0, Some STATE_READY,
          h\<lparr>cmds_to_issue := nxt, cmds_in_flight := cmd # cmds_in_flight h\<rparr>)) \<and>
   (fresh_start c \<longrightarrow>
      (\<exists>c'. run mem es c = Inr c' \<and>
         (state c' = STATE_ISSUE_COMMAND_FINISH \<longrightarrow>
            wlen (conn c') = 0 \<and> cmds_to_issue (conn c') \<noteq> [] \<and>
            command_in_flight.handle (hd (cmds_to_issue (conn c'))) =
              be64toh (nbd_request.handle (request (conn c'))) \<and>
            ISSUE_COMMAND_FINISH (conn c') =
              Inr (0, Some STATE_READY,
                (conn c')\<lparr>cmds_to_issue := tl (cmds_to_issue (conn c')),
                  cmds_in_flight :=
                    hd (cmds_to_issue (conn c')) # cmds_in_flight (conn c')\<rparr>))))"
proof -
  have a: "ISSUE_COMMAND_FINISH h =
        Inr (0, Some STATE_READY,
          h\<lparr>cmds_to_issue := nxt, cmds_in_flight := cmd # cmds_in_flight h\<rparr>)"
    if "wlen h = 0" and "cmds_to_issue h = cmd # nxt"
      and "command_in_flight.handle cmd = be64toh (nbd_request.handle (request h))"
    for h cmd nxt
    using that by (simp add: ISSUE_COMMAND_FINISH_def)
  have b: "\<exists>c'. run mem es c = Inr c' \<and>
         (state c' = STATE_ISSUE_COMMAND_FINISH \<longrightarrow>
            wlen (conn c') = 0 \<and> cmds_to_issue (conn c') \<noteq> [] \<and>
            command_in_flight.handle (hd (cmds_to_issue (conn c'))) =
              be64toh (nbd_request.handle (request (conn c'))) \<and>
            ISSUE_COMMAND_FINISH (conn c') =
              Inr (0, Some STATE_READY,
                (conn c')\<lparr>cmds_to_issue := tl (cmds_to_issue (conn c')),
                  cmds_in_flight :=
                    hd (cmds_to_issue (conn c')) # cmds_in_flight (conn c')\<rparr>))"
    if "fresh_start c"
  proof -
    from run_stream [OF that, of mem es] obtain c' where r: "run mem es c = Inr c'"
      and i: "machine_inv c'" by blast
    have "wlen (conn c') = 0 \<and> cmds_to_issue (conn c') \<noteq> [] \<and>
            command_in_flight.handle (hd (cmds_to_issue (conn c'))) =
              be64toh (nbd_request.handle (request (conn c'))) \<and>
            ISSUE_COMMAND_FINISH (conn c') =
              Inr (0, Some STATE_READY,
                (conn c')\<lparr>cmds_to_issue := tl (cmds_to_issue (conn c')),
                  cmds_in_flight :=
                    hd (cmds_to_issue (conn c')) # cmds_in_flight (conn c')\<rparr>)"
      if f: "state c' = STATE_ISSUE_COMMAND_FINISH"
    proof -
      from inv_assertions [OF i] f have p: "wlen (conn c') = 0"
        "cmds_to_issue (conn c') \<noteq> []"
        "command_in_flight.handle (hd (cmds_to_issue (conn c'))) =
              be64toh (nbd_request.handle (request (conn c')))"
        by (simp_all add: assertions_hold_def)
      then obtain cmd nxt where q: "cmds_to_issue (conn c') = cmd # nxt"
        by (cases "cmds_to_issue (conn c')") auto
      with p a [of "conn c'" cmd nxt] show ?thesis by simp
    qed
    with r show ?thesis by blast
  qed
  from a [of h cmd nxt] b show ?thesis by blast
qed

theorem finish_moves_head_to_in_flight_witness:
  "fresh_start (start_config [example_write]) \<and>
   run example_mem write_schedule (start_config [example_write]) =
     Inr \<lparr>state = STATE_ISSUE_COMMAND_FINISH, blocked = False,
       conn = \<lparr>cmds_to_issue = [example_write], cmds_in_flight = [],
         request = hdr_of example_write, wbuf = Data_ptr 1 8, wlen = 0, wflags = 0,
         in_write_payload = False,
         sock_sent = wire_header example_write @ example_mem 1\<rparr>\<rparr> \<and>
   ISSUE_COMMAND_FINISH
     \<lparr>cmds_to_issue = [example_write], cmds_in_flight = [],
       request = hdr_of example_write, wbuf = Data_ptr 1 8, wlen = 0, wflags = 0,
       in_write_payload = False,
       sock_sent = wire_header example_write @ example_mem 1\<rparr> =
     Inr (0, Some STATE_READY,
       \<lparr>cmds_to_issue = [], cmds_in_flight = [example_write],
         request = hdr_of example_write, wbuf = Data_ptr 1 8, wlen = 0, wflags = 0,
         in_write_payload = False,
         sock_sent = wire_header example_write @ example_mem 1\<rparr>)"
proof -
  have f: "fresh_start (start_config [example_write])"
    by (simp add: example_defs fresh_start_def)
  from finish_moves_head_to_in_flight
    [of "idle_handle []" example_write "[]" "start_config [example_write]"
      example_mem write_schedule] f
  obtain c' where r: "run example_mem write_schedule (start_config [example_write]) = Inr c'"
    and d: "state c' = STATE_ISSUE_COMMAND_FINISH \<longrightarrow>
      ISSUE_COMMAND_FINISH (conn c') =
        Inr (0, Some STATE_READY,
          (conn c')\<lparr>cmds_to_issue := tl (cmds_to_issue (conn c')),
            cmds_in_flight := hd (cmds_to_issue (conn c')) # cmds_in_flight (conn c')\<rparr>)"
    by blast
  from r d f show ?thesis using write_run by auto
qed
text \<open>
  Claim C5. \<^verbatim>\<open>START\<close> (with no partial write pending) assigns \<^verbatim>\<open>MSG_MORE\<close> to \<^verbatim>\<open>wflags\<close>
  exactly when the head command is a write or another command is queued behind it;
  \<^verbatim>\<open>PREPARE_WRITE_PAYLOAD\<close>, for a write, assigns it exactly when another command is
  queued behind it and the payload count is below 64 KiB. Otherwise \<^verbatim>\<open>wflags\<close> keeps
  its value.
\<close>

theorem more_data_hint:
  "(wlen h = 0 \<and> cmds_to_issue h = cmd # nxt \<longrightarrow>
      (\<exists>h'. ISSUE_COMMAND_START h = Inr (0, Some STATE_ISSUE_COMMAND_SEND_REQUEST, h') \<and>
         wflags h' =
           (if command_in_flight.type cmd = NBD_CMD_WRITE \<or> nxt \<noteq> []
            then MSG_MORE else wflags h) \<and>
         (wflags h \<noteq> MSG_MORE \<longrightarrow>
            (wflags h' = MSG_MORE) =
            (command_in_flight.type cmd = NBD_CMD_WRITE \<or> nxt \<noteq> [])))) \<and>
   (cmds_to_issue h = cmd # nxt \<and>
    command_in_flight.handle cmd = be64toh (nbd_request.handle (request h)) \<and>
    command_in_flight.type cmd = NBD_CMD_WRITE \<longrightarrow>
      (\<exists>h'. ISSUE_COMMAND_PREPARE_WRITE_PAYLOAD h =
           Inr (0, Some STATE_ISSUE_COMMAND_SEND_WRITE_PAYLOAD, h') \<and>
         wflags h' =
           (if nxt \<noteq> [] \<and> unat (command_in_flight.count cmd) < 65536
            then MSG_MORE else wflags h) \<and>
         (wflags h \<noteq> MSG_MORE \<longrightarrow>
            (wflags h' = MSG_MORE) =
            (nxt \<noteq> [] \<and> unat (command_in_flight.count cmd) < 65536))))"
proof -
  have lt: "(command_in_flight.count cmd < 64 * 1024) =
      (unat (command_in_flight.count cmd) < 65536)"
    by (simp add: word_less_nat_alt)
  have a: "\<exists>h'. ISSUE_COMMAND_START h = Inr (0, Some STATE_ISSUE_COMMAND_SEND_REQUEST, h') \<and>
         wflags h' =
           (if command_in_flight.type cmd = NBD_CMD_WRITE \<or> nxt \<noteq> []
            then MSG_MORE else wflags h) \<and>
         (wflags h \<noteq> MSG_MORE \<longrightarrow>
            (wflags h' = MSG_MORE) =
            (command_in_flight.type cmd = NBD_CMD_WRITE \<or> nxt \<noteq> []))"
    if "wlen h = 0" and "cmds_to_issue h = cmd # nxt"
    using START_fresh [OF that] by simp
  have b: "\<exists>h'. ISSUE_COMMAND_PREPARE_WRITE_PAYLOAD h =
           Inr (0, Some STATE_ISSUE_COMMAND_SEND_WRITE_PAYLOAD, h') \<and>
         wflags h' =
           (if nxt \<noteq> [] \<and> unat (command_in_flight.count cmd) < 65536
            then MSG_MORE else wflags h) \<and>
         (wflags h \<noteq> MSG_MORE \<longrightarrow>
            (wflags h' = MSG_MORE) =
            (nxt \<noteq> [] \<and> unat (command_in_flight.count cmd) < 65536))"
    if "cmds_to_issue h = cmd # nxt"
      and "command_in_flight.handle cmd = be64toh (nbd_request.handle (request h))"
      and "command_in_flight.type cmd = NBD_CMD_WRITE"
    using that lt by (simp add: ISSUE_COMMAND_PREPARE_WRITE_PAYLOAD_def)
  from a b show ?thesis by blast
qed

theorem more_data_hint_witness:
  "wlen (sent_handle example_write) = 0 \<and>
   cmds_to_issue (sent_handle example_write) = example_write # [example_read] \<and>
   command_in_flight.handle example_write =
     be64toh (nbd_request.handle (request (sent_handle example_write))) \<and>
   command_in_flight.type example_write = NBD_CMD_WRITE \<and>
   wflags (sent_handle example_write) \<noteq> MSG_MORE \<and>
   (\<exists>h'. ISSUE_COMMAND_START (sent_handle example_write) =
        Inr (0, Some STATE_ISSUE_COMMAND_SEND_REQUEST, h') \<and> wflags h' = MSG_MORE) \<and>
   (\<exists>h'. ISSUE_COMMAND_PREPARE_WRITE_PAYLOAD (sent_handle example_write) =
        Inr (0, Some STATE_ISSUE_COMMAND_SEND_WRITE_PAYLOAD, h') \<and> wflags h' = MSG_MORE)"
proof -
  have h: "wlen (sent_handle example_write) = 0"
    "cmds_to_issue (sent_handle example_write) = example_write # [example_read]"
    "command_in_flight.handle example_write =
       be64toh (nbd_request.handle (request (sent_handle example_write)))"
    "command_in_flight.type example_write = NBD_CMD_WRITE"
    "wflags (sent_handle example_write) \<noteq> MSG_MORE"
    "unat (command_in_flight.count example_write) < 65536"
    by (simp_all add: sent_handle_def hdr_of_handle) (simp_all add: example_write_def MSG_MORE_def)
  from h more_data_hint [of "sent_handle example_write" example_write "[example_read]"]
  show ?thesis by simp
qed



text \<open>
  Claim C7. When the send primitive returns -1 in \<^verbatim>\<open>SEND_REQUEST\<close> or in
  \<^verbatim>\<open>SEND_WRITE_PAYLOAD\<close>, the handler names \<^verbatim>\<open>DEAD\<close> and returns -1; both queues are as
  they were, so the head command is still in \<^verbatim>\<open>cmds_to_issue\<close>, and nothing that happens
  to the dead machine afterwards moves it.
\<close>

theorem fatal_send_goes_dead:
  "fst (send_from_wbuf mem sr h) = - 1 \<Longrightarrow>
   ISSUE_COMMAND_SEND_REQUEST mem sr h = Inr (- 1, Some STATE_DEAD, h) \<and>
   ISSUE_COMMAND_SEND_WRITE_PAYLOAD mem sr h = Inr (- 1, Some STATE_DEAD, h) \<and>
   (\<forall>b. run mem es \<lparr>state = STATE_DEAD, blocked = b, conn = h\<rparr> =
      Inr \<lparr>state = STATE_DEAD, blocked = b, conn = h\<rparr>)"
proof -
  assume f: "fst (send_from_wbuf mem sr h) = - 1"
  have "ISSUE_COMMAND_SEND_REQUEST mem sr h = Inr (- 1, Some STATE_DEAD, h)"
    and "ISSUE_COMMAND_SEND_WRITE_PAYLOAD mem sr h = Inr (- 1, Some STATE_DEAD, h)"
    using f send_fatal [OF f]
    by (simp_all add: ISSUE_COMMAND_SEND_REQUEST_def ISSUE_COMMAND_SEND_WRITE_PAYLOAD_def
        split_beta)
  then show ?thesis by (simp add: run_dead)
qed

theorem fatal_send_goes_dead_witness:
  "fst (send_from_wbuf example_mem Sock_error paused_handle) = - 1 \<and>
   ISSUE_COMMAND_SEND_REQUEST example_mem Sock_error paused_handle =
     Inr (- 1, Some STATE_DEAD, paused_handle) \<and>
   cmds_to_issue paused_handle = [example_write] \<and> cmds_in_flight paused_handle = [] \<and>
   run example_mem [Run (Sock_room 28), Notify_read, Enqueue example_read, Reply_done []]
     \<lparr>state = STATE_DEAD, blocked = False, conn = paused_handle\<rparr> =
     Inr \<lparr>state = STATE_DEAD, blocked = False, conn = paused_handle\<rparr>"
proof -
  have f: "fst (send_from_wbuf example_mem Sock_error paused_handle) = - 1"
    and q: "cmds_to_issue paused_handle = [example_write]" "cmds_in_flight paused_handle = []"
    by (simp_all add: send_from_wbuf_def paused_handle_def)
  from f q fatal_send_goes_dead [OF f,
      of "[Run (Sock_room 28), Notify_read, Enqueue example_read, Reply_done []]"]
  show ?thesis by blast
qed

text \<open>
  Claim C8. \<^verbatim>\<open>PAUSE_SEND_REQUEST\<close> clears \<^verbatim>\<open>in_write_payload\<close>, \<^verbatim>\<open>PAUSE_WRITE_PAYLOAD\<close> sets
  it; both name the start state of the reply path and change nothing else in the
  handle. \<^verbatim>\<open>START\<close>, entered again, names the send state that was paused and hands the
  same handle on, so the cursor stands at the byte where the send stopped.
\<close>

theorem pause_keeps_cursor:
  "wlen h \<noteq> 0 \<Longrightarrow> cmds_to_issue h \<noteq> [] \<Longrightarrow>
   ISSUE_COMMAND_PAUSE_SEND_REQUEST h =
     Inr (0, Some STATE_REPLY_START, h\<lparr>in_write_payload := False\<rparr>) \<and>
   ISSUE_COMMAND_PAUSE_WRITE_PAYLOAD h =
     Inr (0, Some STATE_REPLY_START, h\<lparr>in_write_payload := True\<rparr>) \<and>
   ISSUE_COMMAND_START (h\<lparr>in_write_payload := False\<rparr>) =
     Inr (0, Some STATE_ISSUE_COMMAND_SEND_REQUEST, h\<lparr>in_write_payload := False\<rparr>) \<and>
   ISSUE_COMMAND_START (h\<lparr>in_write_payload := True\<rparr>) =
     Inr (0, Some STATE_ISSUE_COMMAND_SEND_WRITE_PAYLOAD, h\<lparr>in_write_payload := True\<rparr>) \<and>
   (\<forall>b. wbuf (h\<lparr>in_write_payload := b\<rparr>) = wbuf h \<and>
        wlen (h\<lparr>in_write_payload := b\<rparr>) = wlen h \<and>
        request (h\<lparr>in_write_payload := b\<rparr>) = request h \<and>
        cmds_to_issue (h\<lparr>in_write_payload := b\<rparr>) = cmds_to_issue h \<and>
        cmds_in_flight (h\<lparr>in_write_payload := b\<rparr>) = cmds_in_flight h \<and>
        sock_sent (h\<lparr>in_write_payload := b\<rparr>) = sock_sent h \<and>
        cursor mem (h\<lparr>in_write_payload := b\<rparr>) = cursor mem h)"
proof -
  assume w: "wlen h \<noteq> 0" and q: "cmds_to_issue h \<noteq> []"
  from q obtain cmd nxt where "cmds_to_issue h = cmd # nxt"
    by (cases "cmds_to_issue h") auto
  with w have "ISSUE_COMMAND_START (h\<lparr>in_write_payload := False\<rparr>) =
     Inr (0, Some STATE_ISSUE_COMMAND_SEND_REQUEST, h\<lparr>in_write_payload := False\<rparr>)"
    and "ISSUE_COMMAND_START (h\<lparr>in_write_payload := True\<rparr>) =
     Inr (0, Some STATE_ISSUE_COMMAND_SEND_WRITE_PAYLOAD, h\<lparr>in_write_payload := True\<rparr>)"
    by (simp_all add: ISSUE_COMMAND_START_def)
  moreover have "cursor mem (h\<lparr>in_write_payload := b\<rparr>) = cursor mem h" for b
    by (simp add: cursor_def read_bytes_request [of "h\<lparr>in_write_payload := b\<rparr>" h])
  ultimately show ?thesis
    using w q
    by (simp add: ISSUE_COMMAND_PAUSE_SEND_REQUEST_def ISSUE_COMMAND_PAUSE_WRITE_PAYLOAD_def)
qed

theorem pause_keeps_cursor_witness:
  "wlen paused_handle \<noteq> 0 \<and> cmds_to_issue paused_handle \<noteq> [] \<and>
   ISSUE_COMMAND_PAUSE_SEND_REQUEST paused_handle =
     Inr (0, Some STATE_REPLY_START, paused_handle) \<and>
   ISSUE_COMMAND_START paused_handle =
     Inr (0, Some STATE_ISSUE_COMMAND_SEND_REQUEST, paused_handle) \<and>
   cursor example_mem paused_handle = drop 10 (wire_header example_write)"
proof -
  have h: "wlen paused_handle \<noteq> 0" "cmds_to_issue paused_handle \<noteq> []"
    and e: "paused_handle\<lparr>in_write_payload := False\<rparr> = paused_handle"
    by (simp_all add: paused_handle_def)
  have c: "cursor example_mem paused_handle = drop 10 (wire_header example_write)"
    by (simp add: cursor_def paused_handle_def request_bytes_hdr_of length_wire_header)
  from pause_keeps_cursor [OF h, of example_mem] h e c show ?thesis by simp
qed

text \<open>
  Claim C9. The count field \<^verbatim>\<open>START\<close> writes into the header is the command's count
  cast to 32 bits: read back, it is the count modulo \<open>2 ^ 32\<close>. \<^verbatim>\<open>START\<close> does not reject
  a larger count; it returns 0 and goes on to \<^verbatim>\<open>SEND_REQUEST\<close>.
\<close>

theorem header_count_truncated:
  "wlen h = 0 \<Longrightarrow> cmds_to_issue h = cmd # nxt \<Longrightarrow>
   \<exists>h'. ISSUE_COMMAND_START h = Inr (0, Some STATE_ISSUE_COMMAND_SEND_REQUEST, h') \<and>
     nbd_request.count (request h') =
       htobe32 (ucast (command_in_flight.count cmd) :: 32 word) \<and>
     unat (be32toh (nbd_request.count (request h'))) =
       unat (command_in_flight.count cmd) mod 2 ^ 32"
proof -
  assume a: "wlen h = 0" "cmds_to_issue h = cmd # nxt"
  have "unat (ucast (command_in_flight.count cmd) :: 32 word) =
      unat (command_in_flight.count cmd) mod 2 ^ 32"
    by (simp add: unsigned_ucast_eq take_bit_eq_mod)
  then show ?thesis
    using START_fresh [OF a] by (simp add: hdr_of_def be32toh_htobe32)
qed

theorem header_count_truncated_witness:
  "wlen (idle_handle [example_huge]) = 0 \<and>
   cmds_to_issue (idle_handle [example_huge]) = example_huge # [] \<and>
   unat (command_in_flight.count example_huge) = 2 ^ 32 + 5 \<and>
   (\<exists>h'. ISSUE_COMMAND_START (idle_handle [example_huge]) =
        Inr (0, Some STATE_ISSUE_COMMAND_SEND_REQUEST, h') \<and>
      nbd_request.count (request h') = [0, 0, 0, 5] \<and>
      unat (be32toh (nbd_request.count (request h'))) = 5)"
proof -
  have h: "wlen (idle_handle [example_huge]) = 0"
    "cmds_to_issue (idle_handle [example_huge]) = example_huge # []"
    by (simp_all add: idle_handle_def)
  have v: "unat (command_in_flight.count example_huge) = 2 ^ 32 + 5"
    "htobe32 (ucast (command_in_flight.count example_huge) :: 32 word) = [0, 0, 0, 5]"
    by (simp_all add: example_huge_def htobe32_def)
  from header_count_truncated [OF h] h v show ?thesis by simp
qed

text \<open>
  Claim C10. In every run that begins with a first entry into \<^verbatim>\<open>START\<close> (a command
  waits, no write is partial), whatever the socket does and whenever the reply path and
  enqueues come in, no assertion fails: the run never ends in \<open>Assertion_failed\<close>, and
  in the state reached the assertions of that state's handler hold: \<^verbatim>\<open>cmds_to_issue\<close> is
  not empty in \<^verbatim>\<open>START\<close>, both \<^verbatim>\<open>PAUSE\<close> states, \<^verbatim>\<open>PREPARE_WRITE_PAYLOAD\<close> and \<^verbatim>\<open>FINISH\<close>;
  \<^verbatim>\<open>wlen\<close> is not zero in both \<^verbatim>\<open>PAUSE\<close> states; the head command's handle is the one
  decoded from the header in \<^verbatim>\<open>PREPARE_WRITE_PAYLOAD\<close> and \<^verbatim>\<open>FINISH\<close>.
\<close>

theorem assertions_never_fail:
  "fresh_start c \<Longrightarrow>
   \<exists>c'. run mem es c = Inr c' \<and> assertions_hold c' \<and>
     (\<forall>sr. enter_state mem sr (state c') c' \<noteq> Inl Assertion_failed)"
proof -
  assume f: "fresh_start c"
  from run_stream [OF f, of mem es] obtain c' where r: "run mem es c = Inr c'"
    and i: "machine_inv c'" by blast
  have "enter_state mem sr (state c') c' \<noteq> Inl Assertion_failed" for sr
    using enter_state_advances [OF i, of mem sr] by auto
  with r inv_assertions [OF i] show ?thesis by blast
qed

theorem assertions_never_fail_witness:
  "fresh_start (start_config [example_write]) \<and>
   run example_mem (take 3 header_schedule) (start_config [example_write]) =
     Inr \<lparr>state = STATE_ISSUE_COMMAND_PAUSE_SEND_REQUEST, blocked = False,
       conn = paused_handle\<rparr> \<and>
   wlen paused_handle \<noteq> 0 \<and> cmds_to_issue paused_handle \<noteq> [] \<and>
   ISSUE_COMMAND_PAUSE_SEND_REQUEST paused_handle \<noteq> Inl Assertion_failed"
proof -
  have f: "fresh_start (start_config [example_write])"
    by (simp add: example_defs fresh_start_def)
  from assertions_never_fail [OF f, of example_mem "take 3 header_schedule"]
  obtain c' where r: "run example_mem (take 3 header_schedule)
      (start_config [example_write]) = Inr c'"
    and a: "assertions_hold c'"
    and e: "enter_state example_mem (Sock_room 0) (state c') c' \<noteq> Inl Assertion_failed"
    by blast
  from r pause_run have c': "c' = \<lparr>state = STATE_ISSUE_COMMAND_PAUSE_SEND_REQUEST,
      blocked = False, conn = paused_handle\<rparr>" by simp
  from a c' have "wlen paused_handle \<noteq> 0 \<and> cmds_to_issue paused_handle \<noteq> []"
    by (simp add: assertions_hold_def)
  moreover from e c' have "ISSUE_COMMAND_PAUSE_SEND_REQUEST paused_handle \<noteq> Inl Assertion_failed"
    by (auto simp add: after_handler_def split: sum.splits)
  ultimately show ?thesis using f r c' by simp
qed

end
